theory Spec2Isabelle
  imports Main
begin

section \<open>Forward-time ancestry recorder: the notebook's simulator\<close>

text \<open>
  The development embeds the code cells of \<^verbatim>\<open>content/ForwardSimulation.ipynb\<close>.
  The notebook defines its simulator twice. The first group of cells has
  \<^verbatim>\<open>add_inheritance_paths\<close> (one edge over the focal region), \<^verbatim>\<open>new_population\<close> and
  \<^verbatim>\<open>simple_diploid_sim\<close>; the last group redefines \<^verbatim>\<open>add_inheritance_paths\<close>
  (crossovers at integer positions) and adds \<^verbatim>\<open>make_diploid\<close>, \<^verbatim>\<open>new_pop\<close>,
  \<^verbatim>\<open>initialise_pop\<close>, \<^verbatim>\<open>simple_diploid_sim\<close>, \<^verbatim>\<open>simplify_tables\<close> and \<^verbatim>\<open>diploid_sim\<close>.
  Where two cells bind one name, the earlier binding carries a suffix here. The cell in
  between, which rebinds \<^verbatim>\<open>add_inheritance_paths\<close> to crossovers at continuous
  (floating-point) positions, is not embedded. Ids, positions and times are Python
  integers; the tables grow without bound (tskit's row limit is not modelled).
\<close>

subsection \<open>Exceptions\<close>

text \<open>The Python exceptions the notebook's code can raise.\<close>

datatype error =
    KeyError
  | IndexError
  | ValueError
  | ZeroDivisionError
  | AssertionError
  | TypeError_unsupported_operand
  | TypeError_positional_arguments

subsection \<open>The ledger: a table collection\<close>

record node =
  flags :: int
  time :: int
  individual :: int

record edge =
  left :: int
  right :: int
  parent :: int
  child :: int

record individual_row =
  parents :: "int list"

record tables =
  sequence_length :: int
  time_units :: string
  nodes :: "node list"
  edges :: "edge list"
  individuals :: "individual_row list"

definition NODE_IS_SAMPLE :: int where
  "NODE_IS_SAMPLE = 1"

definition TableCollection :: "int \<Rightarrow> tables" where
  "TableCollection L =
     \<lparr>sequence_length = L, time_units = ''unknown'', nodes = [], edges = [], individuals = []\<rparr>"

text \<open>Every \<^verbatim>\<open>add_row\<close> appends one row and returns the index of the new row.\<close>

definition individuals_add_row :: "int list \<Rightarrow> tables \<Rightarrow> int \<times> tables" where
  "individuals_add_row ps tb =
     (int (length (individuals tb)),
      tb\<lparr>individuals := individuals tb @ [\<lparr>parents = ps\<rparr>]\<rparr>)"

definition nodes_add_row :: "int \<Rightarrow> int \<Rightarrow> int \<Rightarrow> tables \<Rightarrow> int \<times> tables" where
  "nodes_add_row fl t ind tb =
     (int (length (nodes tb)),
      tb\<lparr>nodes := nodes tb @ [\<lparr>flags = fl, time = t, individual = ind\<rparr>]\<rparr>)"

definition edges_add_row :: "int \<Rightarrow> int \<Rightarrow> int \<Rightarrow> int \<Rightarrow> tables \<Rightarrow> tables" where
  "edges_add_row l r p c tb =
     tb\<lparr>edges := edges tb @ [\<lparr>left = l, right = r, parent = p, child = c\<rparr>]\<rparr>"

subsection \<open>The random number generator\<close>

text \<open>
  The notebook draws from one global numpy generator. The generator is a tape of raw
  draws, consumed from the front (an exhausted tape yields 0); a bounded draw is the raw
  value reduced into its range, so every sequence of in-range outcomes comes from some
  tape, and a function that draws returns the rest of the tape.
\<close>

type_synonym rng = "nat list"

fun draw :: "rng \<Rightarrow> nat \<times> rng" where
  "draw [] = (0, [])"
| "draw (x # xs) = (x, xs)"

text \<open>\<^verbatim>\<open>random.integers(n)\<close>: one integer of \<open>0..n-1\<close>.\<close>

definition random_integers :: "nat \<Rightarrow> rng \<Rightarrow> nat \<times> rng" where
  "random_integers n r = (case draw r of (x, r') \<Rightarrow> (x mod n, r'))"

text \<open>\<^verbatim>\<open>random.poisson(lam)\<close>: any count.\<close>

definition random_poisson :: "rng \<Rightarrow> nat \<times> rng" where
  "random_poisson r = draw r"

text \<open>
  \<^verbatim>\<open>random.integers(low, high, size=n)\<close>: \<open>n\<close> integers of \<open>low..high-1\<close>. numpy
  returns the empty array for \<open>n = 0\<close> before it looks at the bounds, and otherwise raises
  ValueError when \<open>low >= high\<close>.
\<close>

fun draw_integers :: "int \<Rightarrow> int \<Rightarrow> nat \<Rightarrow> rng \<Rightarrow> int list \<times> rng" where
  "draw_integers low high 0 r = ([], r)"
| "draw_integers low high (Suc n) r =
     (case draw r of (x, r') \<Rightarrow>
        (case draw_integers low high n r' of (xs, r'') \<Rightarrow>
           ((low + int (x mod nat (high - low))) # xs, r'')))"

definition random_integers_size :: "int \<Rightarrow> int \<Rightarrow> nat \<Rightarrow> rng \<Rightarrow> error + (int list \<times> rng)" where
  "random_integers_size low high n r =
     (if n = 0 then Inr ([], r)
      else if high \<le> low then Inl ValueError
      else Inr (draw_integers low high n r))"

text \<open>
  \<^verbatim>\<open>random.choice(a, 2, replace=True)\<close>: two independent picks from the array; numpy
  raises ValueError on an empty array.
\<close>

definition random_choice2 :: "int list \<Rightarrow> rng \<Rightarrow> error + ((int \<times> int) \<times> rng)" where
  "random_choice2 a r =
     (if a = [] then Inl ValueError
      else (case draw r of (i, r1) \<Rightarrow>
              (case draw r1 of (j, r2) \<Rightarrow>
                 Inr ((a ! (i mod length a), a ! (j mod length a)), r2))))"

subsection \<open>Python tuples and dictionaries\<close>

text \<open>Indexing the pair of a parent's genomes with \<^verbatim>\<open>inherit_from\<close>.\<close>

definition tuple_index :: "int \<times> int \<Rightarrow> nat \<Rightarrow> error + int" where
  "tuple_index pg i =
     (if i = 0 then Inr (fst pg) else if i = 1 then Inr (snd pg) else Inl IndexError)"

text \<open>
  A population is a Python dict from an individual's id to its pair of genome ids. A dict
  keeps insertion order; assigning to a key that exists replaces the value in place.
\<close>

type_synonym population = "(int \<times> (int \<times> int)) list"

fun dict_set :: "('k \<times> 'v) list \<Rightarrow> 'k \<Rightarrow> 'v \<Rightarrow> ('k \<times> 'v) list" where
  "dict_set [] k v = [(k, v)]"
| "dict_set ((k', v') # d) k v =
     (if k' = k then (k, v) # d else (k', v') # dict_set d k v)"

definition dict_get :: "('k \<times> 'v) list \<Rightarrow> 'k \<Rightarrow> error + 'v" where
  "dict_get d k = (case map_of d k of None \<Rightarrow> Inl KeyError | Some v \<Rightarrow> Inr v)"

definition dict_keys :: "('k \<times> 'v) list \<Rightarrow> 'k list" where
  "dict_keys d = map fst d"

subsection \<open>Inheritance paths without recombination (first definition)\<close>

definition focal_region :: "int \<times> int" where
  "focal_region = (20000, 21000)"

definition add_inheritance_paths_focal ::
  "tables \<Rightarrow> int \<times> int \<Rightarrow> int \<Rightarrow> rng \<Rightarrow> error + (tables \<times> rng)" where
  "add_inheritance_paths_focal tb parent_genomes child_genome r =
     (case focal_region of (l, rt) \<Rightarrow>
        (case random_integers 2 r of (inherit_from, r') \<Rightarrow>
           (case tuple_index parent_genomes inherit_from of
              Inl e \<Rightarrow> Inl e
            | Inr p \<Rightarrow> Inr (edges_add_row l rt p child_genome tb, r'))))"

subsection \<open>Inheritance paths with crossovers at integer positions (last definition)\<close>

text \<open>\<^verbatim>\<open>np.unique(breakpoints, return_counts=True)\<close>: the sorted distinct values, each with
  the number of times it occurs.\<close>

definition np_unique_counts :: "int list \<Rightarrow> (int \<times> nat) list" where
  "np_unique_counts xs = map (\<lambda>v. (v, count_list xs v)) (sort (remdups xs))"

text \<open>The \<^verbatim>\<open>for left, right in zip(...)\<close> loop: one edge per interval, the parental genome
  switching after each.\<close>

fun add_paths :: "tables \<Rightarrow> (int \<times> int) list \<Rightarrow> int \<times> int \<Rightarrow> nat \<Rightarrow> int \<Rightarrow> error + tables" where
  "add_paths tb [] parent_genomes inherit_from child_genome = Inr tb"
| "add_paths tb ((l, rt) # ivs) parent_genomes inherit_from child_genome =
     (case tuple_index parent_genomes inherit_from of
        Inl e \<Rightarrow> Inl e
      | Inr p \<Rightarrow>
          add_paths (edges_add_row l rt p child_genome tb) ivs parent_genomes
            (1 - inherit_from) child_genome)"

definition add_inheritance_paths ::
  "tables \<Rightarrow> int \<times> int \<Rightarrow> int \<Rightarrow> rng \<Rightarrow> error + (tables \<times> rng)" where
  "add_inheritance_paths tb parent_genomes child_genome r =
     (let L = sequence_length tb in
      case random_poisson r of (num_recombinations, r1) \<Rightarrow>
        (case random_integers_size 0 (L - 1) num_recombinations r1 of
           Inl e \<Rightarrow> Inl e
         | Inr (breakpoints, r2) \<Rightarrow>
             (let crossovers =
                    map fst (filter (\<lambda>(pos, cnt). cnt mod 2 = 1) (np_unique_counts breakpoints));
                  left_positions = 0 # crossovers;
                  right_positions = crossovers @ [L]
              in case random_integers 2 r2 of (inherit_from, r3) \<Rightarrow>
                   (case add_paths tb (zip left_positions right_positions) parent_genomes
                           inherit_from child_genome of
                      Inl e \<Rightarrow> Inl e
                    | Inr tb' \<Rightarrow> Inr (tb', r3)))))"

subsection \<open>The loop over a child's two genomes\<close>

text \<open>
  Both \<^verbatim>\<open>new_population\<close> and \<^verbatim>\<open>new_pop\<close> run
  \<^verbatim>\<open>for child_genome, parent_individual in zip(child_genomes, mother_and_father)\<close>, look the
  parent individual up in the previous population (KeyError when it is absent) and call
  whatever the global name \<^verbatim>\<open>add_inheritance_paths\<close> is bound to; that binding is the
  first argument here.
\<close>

type_synonym inheritance = "tables \<Rightarrow> int \<times> int \<Rightarrow> int \<Rightarrow> rng \<Rightarrow> error + (tables \<times> rng)"

fun inherit_genomes ::
  "inheritance \<Rightarrow> tables \<Rightarrow> population \<Rightarrow> (int \<times> int) list \<Rightarrow> rng \<Rightarrow> error + (tables \<times> rng)" where
  "inherit_genomes aip tb prev [] r = Inr (tb, r)"
| "inherit_genomes aip tb prev ((child_genome, parent_individual) # rest) r =
     (case dict_get prev parent_individual of
        Inl e \<Rightarrow> Inl e
      | Inr parent_genomes \<Rightarrow>
          (case aip tb parent_genomes child_genome r of
             Inl e \<Rightarrow> Inl e
           | Inr (tb', r') \<Rightarrow> inherit_genomes aip tb' prev rest r'))"

subsection \<open>First simulator: \<^verbatim>\<open>new_population\<close> and \<^verbatim>\<open>simple_diploid_sim\<close>\<close>

text \<open>
  The globals \<^verbatim>\<open>diploid_population_size\<close> (first cells) and \<^verbatim>\<open>diploid_pop_size\<close> (last
  cells) are the argument \<open>N\<close> of the functions that read them; \<^verbatim>\<open>sequence_length\<close> is
  50000 in both.
\<close>

definition sequence_length_global :: int where
  "sequence_length_global = 50000"

text \<open>The truth value of \<^verbatim>\<open>prev_population\<close>: neither None nor an empty dict.\<close>

definition population_truthy :: "population option \<Rightarrow> bool" where
  "population_truthy prev = (case prev of None \<Rightarrow> False | Some d \<Rightarrow> d \<noteq> [])"

text \<open>
  One round of the \<^verbatim>\<open>for _ in range(diploid_population_size)\<close> loop of
  \<^verbatim>\<open>new_population\<close>. The round draws \<^verbatim>\<open>random.choice(prev_individuals, 2, replace=True)\<close>
  twice: once for \<^verbatim>\<open>parent_individual_ids\<close>, stored in the individual table, and once
  more for \<^verbatim>\<open>mother_and_father\<close>, whose genomes the child inherits from.
\<close>

definition new_population_round ::
  "tables \<Rightarrow> int \<Rightarrow> population option \<Rightarrow> int list \<Rightarrow> population \<Rightarrow> rng \<Rightarrow>
     error + (population \<times> tables \<times> rng)" where
  "new_population_round tb t prev_population prev_individuals new_population r =
     (case (if population_truthy prev_population
            then (case random_choice2 prev_individuals r of
                    Inl e \<Rightarrow> Inl e
                  | Inr ((m, f), r') \<Rightarrow> Inr ([m, f], r'))
            else Inr ([], r)) of
        Inl e \<Rightarrow> Inl e
      | Inr (parent_individual_ids, r1) \<Rightarrow>
          (case individuals_add_row parent_individual_ids tb of (i, tb1) \<Rightarrow>
             (case nodes_add_row NODE_IS_SAMPLE t i tb1 of (g1, tb2) \<Rightarrow>
                (case nodes_add_row NODE_IS_SAMPLE t i tb2 of (g2, tb3) \<Rightarrow>
                   (let new_population' = dict_set new_population i (g1, g2) in
                    if population_truthy prev_population
                    then (case random_choice2 prev_individuals r1 of
                            Inl e \<Rightarrow> Inl e
                          | Inr ((mother, father), r2) \<Rightarrow>
                              (case inherit_genomes add_inheritance_paths_focal tb3
                                      (case prev_population of None \<Rightarrow> [] | Some d \<Rightarrow> d)
                                      [(g1, mother), (g2, father)] r2 of
                                 Inl e \<Rightarrow> Inl e
                               | Inr (tb4, r3) \<Rightarrow> Inr (new_population', tb4, r3)))
                    else Inr (new_population', tb3, r1))))))"

fun new_population_rounds ::
  "nat \<Rightarrow> tables \<Rightarrow> int \<Rightarrow> population option \<Rightarrow> int list \<Rightarrow> population \<Rightarrow> rng \<Rightarrow>
     error + (population \<times> tables \<times> rng)" where
  "new_population_rounds 0 tb t prev_population prev_individuals new_population r =
     Inr (new_population, tb, r)"
| "new_population_rounds (Suc n) tb t prev_population prev_individuals new_population r =
     (case new_population_round tb t prev_population prev_individuals new_population r of
        Inl e \<Rightarrow> Inl e
      | Inr (new_population', tb', r') \<Rightarrow>
          new_population_rounds n tb' t prev_population prev_individuals new_population' r')"

definition new_population ::
  "nat \<Rightarrow> tables \<Rightarrow> int \<Rightarrow> population option \<Rightarrow> rng \<Rightarrow> error + (population \<times> tables \<times> rng)" where
  "new_population N tb t prev_population r =
     (let prev_individuals = (case prev_population of None \<Rightarrow> [] | Some d \<Rightarrow> dict_keys d)
      in new_population_rounds N tb t prev_population prev_individuals [] r)"

text \<open>The \<^verbatim>\<open>while generations > 0\<close> loop of the first \<^verbatim>\<open>simple_diploid_sim\<close>.\<close>

function simple_diploid_sim_population_loop ::
  "nat \<Rightarrow> tables \<Rightarrow> int \<Rightarrow> population \<Rightarrow> rng \<Rightarrow> error + (population \<times> tables \<times> rng)" where
  "simple_diploid_sim_population_loop N tb generations population r =
     (if generations > 0
      then (case new_population N tb (generations - 1) (Some population) r of
              Inl e \<Rightarrow> Inl e
            | Inr (population', tb', r') \<Rightarrow>
                simple_diploid_sim_population_loop N tb' (generations - 1) population' r')
      else Inr (population, tb, r))"
  by pat_completeness auto
termination
  by (relation "measure (\<lambda>(N, tb, generations, population, r). nat generations)") auto

text \<open>The ledger the first \<^verbatim>\<open>simple_diploid_sim\<close> has built when its loop ends, before it
  hands the tables to \<^verbatim>\<open>tables.sort()\<close> and \<^verbatim>\<open>tables.tree_sequence()\<close>.\<close>

definition simple_diploid_sim_population_tables :: "nat \<Rightarrow> rng \<Rightarrow> int \<Rightarrow> error + tables" where
  "simple_diploid_sim_population_tables N r generations =
     (let tb = (TableCollection sequence_length_global)\<lparr>time_units := ''generations''\<rparr>
      in case new_population N tb generations None r of
           Inl e \<Rightarrow> Inl e
         | Inr (population, tb1, r1) \<Rightarrow>
             (case simple_diploid_sim_population_loop N tb1 generations population r1 of
                Inl e \<Rightarrow> Inl e
              | Inr (population', tb2, r2) \<Rightarrow> Inr tb2))"

subsection \<open>Second simulator: \<^verbatim>\<open>make_diploid\<close>, \<^verbatim>\<open>new_pop\<close>, \<^verbatim>\<open>initialise_pop\<close>\<close>

definition make_diploid :: "tables \<Rightarrow> int \<Rightarrow> int list \<Rightarrow> (int \<times> (int \<times> int)) \<times> tables" where
  "make_diploid tb t parent_individuals =
     (case individuals_add_row parent_individuals tb of (individual_id, tb1) \<Rightarrow>
        (case nodes_add_row 0 t individual_id tb1 of (g1, tb2) \<Rightarrow>
           (case nodes_add_row 0 t individual_id tb2 of (g2, tb3) \<Rightarrow>
              ((individual_id, (g1, g2)), tb3))))"

definition new_pop_round ::
  "tables \<Rightarrow> int \<Rightarrow> population \<Rightarrow> int list \<Rightarrow> population \<Rightarrow> rng \<Rightarrow>
     error + (population \<times> tables \<times> rng)" where
  "new_pop_round tb t prev_pop prev_individuals pop r =
     (case random_choice2 prev_individuals r of
        Inl e \<Rightarrow> Inl e
      | Inr ((mother, father), r1) \<Rightarrow>
          (case make_diploid tb t [mother, father] of ((child_id, (g1, g2)), tb1) \<Rightarrow>
             (let pop' = dict_set pop child_id (g1, g2) in
              case inherit_genomes add_inheritance_paths tb1 prev_pop
                     [(g1, mother), (g2, father)] r1 of
                Inl e \<Rightarrow> Inl e
              | Inr (tb2, r2) \<Rightarrow> Inr (pop', tb2, r2))))"

fun new_pop_rounds ::
  "nat \<Rightarrow> tables \<Rightarrow> int \<Rightarrow> population \<Rightarrow> int list \<Rightarrow> population \<Rightarrow> rng \<Rightarrow>
     error + (population \<times> tables \<times> rng)" where
  "new_pop_rounds 0 tb t prev_pop prev_individuals pop r = Inr (pop, tb, r)"
| "new_pop_rounds (Suc n) tb t prev_pop prev_individuals pop r =
     (case new_pop_round tb t prev_pop prev_individuals pop r of
        Inl e \<Rightarrow> Inl e
      | Inr (pop', tb', r') \<Rightarrow> new_pop_rounds n tb' t prev_pop prev_individuals pop' r')"

definition new_pop ::
  "nat \<Rightarrow> tables \<Rightarrow> int \<Rightarrow> population \<Rightarrow> rng \<Rightarrow> error + (population \<times> tables \<times> rng)" where
  "new_pop N tb t prev_pop r = new_pop_rounds N tb t prev_pop (dict_keys prev_pop) [] r"

text \<open>\<^verbatim>\<open>dict(make_diploid(tables, time) for _ in range(diploid_pop_size))\<close>.\<close>

fun initialise_pop_rounds :: "nat \<Rightarrow> tables \<Rightarrow> int \<Rightarrow> population \<Rightarrow> population \<times> tables" where
  "initialise_pop_rounds 0 tb t pop = (pop, tb)"
| "initialise_pop_rounds (Suc n) tb t pop =
     (case make_diploid tb t [] of ((individual_id, genomes), tb') \<Rightarrow>
        initialise_pop_rounds n tb' t (dict_set pop individual_id genomes))"

definition initialise_pop :: "nat \<Rightarrow> tables \<Rightarrow> int \<Rightarrow> population \<times> tables" where
  "initialise_pop N tb t = initialise_pop_rounds N tb t []"

function simple_diploid_sim_loop ::
  "nat \<Rightarrow> tables \<Rightarrow> int \<Rightarrow> population \<Rightarrow> rng \<Rightarrow> error + (population \<times> tables \<times> rng)" where
  "simple_diploid_sim_loop N tb generations pop r =
     (if generations > 0
      then (case new_pop N tb (generations - 1) pop r of
              Inl e \<Rightarrow> Inl e
            | Inr (pop', tb', r') \<Rightarrow> simple_diploid_sim_loop N tb' (generations - 1) pop' r')
      else Inr (pop, tb, r))"
  by pat_completeness auto
termination
  by (relation "measure (\<lambda>(N, tb, generations, pop, r). nat generations)") auto

text \<open>The ledger the second \<^verbatim>\<open>simple_diploid_sim\<close> has built when its loop ends.\<close>

definition simple_diploid_sim_tables :: "nat \<Rightarrow> rng \<Rightarrow> int \<Rightarrow> error + tables" where
  "simple_diploid_sim_tables N r generations =
     (let tb = (TableCollection sequence_length_global)\<lparr>time_units := ''generations''\<rparr>
      in case initialise_pop N tb generations of (pop, tb1) \<Rightarrow>
           (case simple_diploid_sim_loop N tb1 generations pop r of
              Inl e \<Rightarrow> Inl e
            | Inr (pop', tb2, r2) \<Rightarrow> Inr tb2))"

subsection \<open>The tskit library\<close>

text \<open>
  \<^verbatim>\<open>tables.sort()\<close>, \<^verbatim>\<open>tables.simplify(samples, keep_input_roots=True,
  record_provenance=False)\<close> and \<^verbatim>\<open>tables.tree_sequence()\<close> are calls into the tskit
  package, whose code is no part of the notebook. They are parameters of the functions
  that call them: \<open>tskit_simplify\<close> returns the rewritten tables and the node map (the
  new id of every old node, or -1), and each call may raise.
\<close>

record tskit =
  tskit_sort :: "tables \<Rightarrow> error + tables"
  tskit_simplify :: "tables \<Rightarrow> int list \<Rightarrow> error + (tables \<times> int list)"
  tskit_tree_sequence :: "tables \<Rightarrow> error + tables"

text \<open>Indexing a numpy array: a negative index counts from the end, an index outside
  the array raises IndexError.\<close>

definition np_index :: "'a list \<Rightarrow> int \<Rightarrow> error + 'a" where
  "np_index xs i =
     (if 0 \<le> i \<and> i < int (length xs) then Inr (xs ! nat i)
      else if - int (length xs) \<le> i \<and> i < 0 then Inr (xs ! nat (int (length xs) + i))
      else Inl IndexError)"

subsection \<open>\<^verbatim>\<open>simplify_tables\<close>\<close>

text \<open>The loop that fills \<^verbatim>\<open>individual_map\<close>, with its assertion.\<close>

fun individual_map_loop ::
  "int list \<Rightarrow> int list \<Rightarrow> int list \<Rightarrow> population \<Rightarrow> (int \<times> int) list \<Rightarrow>
     error + (int \<times> int) list" where
  "individual_map_loop old_nodes_individual nodes_individual node_map [] individual_map =
     Inr individual_map"
| "individual_map_loop old_nodes_individual nodes_individual node_map
       ((ind_id, (node1_id, node2_id)) # items) individual_map =
     (case np_index old_nodes_individual node1_id of
        Inl e \<Rightarrow> Inl e
      | Inr old_ind_id \<Rightarrow>
     (case np_index node_map node1_id of
        Inl e \<Rightarrow> Inl e
      | Inr n1 \<Rightarrow>
     (case np_index nodes_individual n1 of
        Inl e \<Rightarrow> Inl e
      | Inr a \<Rightarrow>
     (case np_index node_map node2_id of
        Inl e \<Rightarrow> Inl e
      | Inr n2 \<Rightarrow>
     (case np_index nodes_individual n2 of
        Inl e \<Rightarrow> Inl e
      | Inr b \<Rightarrow>
          if a \<noteq> b then Inl AssertionError
          else individual_map_loop old_nodes_individual nodes_individual node_map items
                 (dict_set individual_map old_ind_id a))))))"

text \<open>The dict comprehension that \<^verbatim>\<open>simplify_tables\<close> returns.\<close>

fun remap_population ::
  "(int \<times> int) list \<Rightarrow> int list \<Rightarrow> population \<Rightarrow> population \<Rightarrow> error + population" where
  "remap_population individual_map node_map [] acc = Inr acc"
| "remap_population individual_map node_map ((ind_id, (node1_id, node2_id)) # items) acc =
     (case dict_get individual_map ind_id of
        Inl e \<Rightarrow> Inl e
      | Inr new_ind \<Rightarrow>
     (case np_index node_map node1_id of
        Inl e \<Rightarrow> Inl e
      | Inr n1 \<Rightarrow>
     (case np_index node_map node2_id of
        Inl e \<Rightarrow> Inl e
      | Inr n2 \<Rightarrow>
          remap_population individual_map node_map items (dict_set acc new_ind (n1, n2)))))"

definition simplify_tables ::
  "tskit \<Rightarrow> tables \<Rightarrow> int list \<Rightarrow> population \<Rightarrow> error + (population \<times> tables)" where
  "simplify_tables lib tb samples pop =
     (let old_nodes_individual = map individual (nodes tb) in
      case tskit_sort lib tb of
        Inl e \<Rightarrow> Inl e
      | Inr tb1 \<Rightarrow>
     (case tskit_simplify lib tb1 samples of
        Inl e \<Rightarrow> Inl e
      | Inr (tb2, node_map) \<Rightarrow>
     (let nodes_individual = map individual (nodes tb2) in
      case individual_map_loop old_nodes_individual nodes_individual node_map pop [] of
        Inl e \<Rightarrow> Inl e
      | Inr individual_map \<Rightarrow>
     (case remap_population individual_map node_map pop [] of
        Inl e \<Rightarrow> Inl e
      | Inr pop' \<Rightarrow> Inr (pop', tb2)))))"

subsection \<open>The driver \<^verbatim>\<open>diploid_sim\<close>\<close>

text \<open>The argument \<^verbatim>\<open>simplification_interval\<close> is whatever the caller passes; its default
  is None.\<close>

datatype pyval = PyNone | PyInt int | PyStr string

text \<open>\<^verbatim>\<open>generations % simplification_interval\<close> with an integer on the left: Python's
  remainder has the sign of the divisor (as \<open>mod\<close> on \<open>int\<close> has), raises
  ZeroDivisionError on 0 and TypeError on None or a string.\<close>

definition py_mod :: "int \<Rightarrow> pyval \<Rightarrow> error + int" where
  "py_mod a b =
     (case b of
        PyNone \<Rightarrow> Inl TypeError_unsupported_operand
      | PyStr s \<Rightarrow> Inl TypeError_unsupported_operand
      | PyInt c \<Rightarrow> if c = 0 then Inl ZeroDivisionError else Inr (a mod c))"

text \<open>\<^verbatim>\<open>[u for genomes in pop.values() for u in genomes]\<close>.\<close>

definition current_nodes :: "population \<Rightarrow> int list" where
  "current_nodes pop = concat (map (\<lambda>(i, (g1, g2)). [g1, g2]) pop)"

text \<open>
  The driver calls \<^verbatim>\<open>initialise_pop(tables, generations, diploid_pop_size)\<close>. The
  function is declared \<^verbatim>\<open>def initialise_pop(tables, time)\<close>: Python raises TypeError for
  the third positional argument before the body runs.
\<close>

definition initialise_pop_3 ::
  "nat \<Rightarrow> tables \<Rightarrow> int \<Rightarrow> nat \<Rightarrow> error + (population \<times> tables)" where
  "initialise_pop_3 N tb t diploid_pop_size = Inl TypeError_positional_arguments"

text \<open>The \<^verbatim>\<open>while generations > 0\<close> loop of the driver.\<close>

function diploid_sim_loop ::
  "tskit \<Rightarrow> nat \<Rightarrow> pyval \<Rightarrow> int \<Rightarrow> tables \<Rightarrow> int \<Rightarrow> population \<Rightarrow> rng \<Rightarrow>
     error + (population \<times> tables \<times> rng)" where
  "diploid_sim_loop lib N simplification_interval simplify_modulo tb generations pop r =
     (if generations > 0
      then (case new_pop N tb (generations - 1) pop r of
              Inl e \<Rightarrow> Inl e
            | Inr (pop1, tb1, r1) \<Rightarrow>
                (case (if generations - 1 > 0
                       then (case py_mod (generations - 1) simplification_interval of
                               Inl e \<Rightarrow> Inl e
                             | Inr m \<Rightarrow> Inr (m = simplify_modulo))
                       else Inr False) of
                   Inl e \<Rightarrow> Inl e
                 | Inr True \<Rightarrow>
                     (case simplify_tables lib tb1 (current_nodes pop1) pop1 of
                        Inl e \<Rightarrow> Inl e
                      | Inr (pop2, tb2) \<Rightarrow>
                          diploid_sim_loop lib N simplification_interval simplify_modulo tb2
                            (generations - 1) pop2 r1)
                 | Inr False \<Rightarrow>
                     diploid_sim_loop lib N simplification_interval simplify_modulo tb1
                       (generations - 1) pop1 r1))
      else Inr (pop, tb, r))"
  by pat_completeness auto
termination
  by (relation "measure (\<lambda>(lib, N, si, sm, tb, generations, pop, r). nat generations)") auto

definition diploid_sim ::
  "tskit \<Rightarrow> nat \<Rightarrow> rng \<Rightarrow> nat \<Rightarrow> int \<Rightarrow> pyval \<Rightarrow> error + tables" where
  "diploid_sim lib N r diploid_pop_size generations simplification_interval =
     (let tb = TableCollection sequence_length_global in
      case py_mod generations simplification_interval of
        Inl e \<Rightarrow> Inl e
      | Inr simplify_modulo \<Rightarrow>
     (let tb0 = tb\<lparr>time_units := ''generations''\<rparr> in
      case initialise_pop_3 N tb0 generations diploid_pop_size of
        Inl e \<Rightarrow> Inl e
      | Inr (pop, tb1) \<Rightarrow>
     (case diploid_sim_loop lib N simplification_interval simplify_modulo tb1 generations pop r of
        Inl e \<Rightarrow> Inl e
      | Inr (pop1, tb2, r1) \<Rightarrow>
     (case simplify_tables lib tb2 (current_nodes pop1) pop1 of
        Inl e \<Rightarrow> Inl e
      | Inr (pop2, tb3) \<Rightarrow> tskit_tree_sequence lib tb3))))"

subsection \<open>The driver's calls\<close>

text \<open>
  The driver once more, returning with its result the calls it has made, in order, of the
  functions that build or rewrite the ledger: \<^verbatim>\<open>initialise_pop\<close>, \<^verbatim>\<open>new_pop\<close> (with its
  time) and \<^verbatim>\<open>simplify_tables\<close>. A call is listed once its body is entered, whether it
  returns or raises; \<^verbatim>\<open>initialise_pop(tables, generations, diploid_pop_size)\<close> raises
  before the body is entered and is not listed.
\<close>

datatype call = Call_initialise_pop | Call_new_pop int | Call_simplify_tables

function diploid_sim_loop_calls ::
  "tskit \<Rightarrow> nat \<Rightarrow> pyval \<Rightarrow> int \<Rightarrow> tables \<Rightarrow> int \<Rightarrow> population \<Rightarrow> rng \<Rightarrow> call list \<Rightarrow>
     call list \<times> (error + (population \<times> tables \<times> rng))" where
  "diploid_sim_loop_calls lib N simplification_interval simplify_modulo tb generations pop r calls =
     (if generations > 0
      then (case new_pop N tb (generations - 1) pop r of
              Inl e \<Rightarrow> (calls @ [Call_new_pop (generations - 1)], Inl e)
            | Inr (pop1, tb1, r1) \<Rightarrow>
                (case (if generations - 1 > 0
                       then (case py_mod (generations - 1) simplification_interval of
                               Inl e \<Rightarrow> Inl e
                             | Inr m \<Rightarrow> Inr (m = simplify_modulo))
                       else Inr False) of
                   Inl e \<Rightarrow> (calls @ [Call_new_pop (generations - 1)], Inl e)
                 | Inr True \<Rightarrow>
                     (case simplify_tables lib tb1 (current_nodes pop1) pop1 of
                        Inl e \<Rightarrow>
                          (calls @ [Call_new_pop (generations - 1), Call_simplify_tables], Inl e)
                      | Inr (pop2, tb2) \<Rightarrow>
                          diploid_sim_loop_calls lib N simplification_interval simplify_modulo tb2
                            (generations - 1) pop2 r1
                            (calls @ [Call_new_pop (generations - 1), Call_simplify_tables]))
                 | Inr False \<Rightarrow>
                     diploid_sim_loop_calls lib N simplification_interval simplify_modulo tb1
                       (generations - 1) pop1 r1 (calls @ [Call_new_pop (generations - 1)])))
      else (calls, Inr (pop, tb, r)))"
  by pat_completeness auto
termination
  by (relation "measure (\<lambda>(lib, N, si, sm, tb, generations, pop, r, calls). nat generations)")
    auto

definition diploid_sim_calls ::
  "tskit \<Rightarrow> nat \<Rightarrow> rng \<Rightarrow> nat \<Rightarrow> int \<Rightarrow> pyval \<Rightarrow> call list \<times> (error + tables)" where
  "diploid_sim_calls lib N r diploid_pop_size generations simplification_interval =
     (let tb = TableCollection sequence_length_global in
      case py_mod generations simplification_interval of
        Inl e \<Rightarrow> ([], Inl e)
      | Inr simplify_modulo \<Rightarrow>
     (let tb0 = tb\<lparr>time_units := ''generations''\<rparr> in
      case initialise_pop_3 N tb0 generations diploid_pop_size of
        Inl e \<Rightarrow> ([], Inl e)
      | Inr (pop, tb1) \<Rightarrow>
     (case diploid_sim_loop_calls lib N simplification_interval simplify_modulo tb1 generations
             pop r [Call_initialise_pop] of
        (calls, Inl e) \<Rightarrow> (calls, Inl e)
      | (calls, Inr (pop1, tb2, r1)) \<Rightarrow>
     (case simplify_tables lib tb2 (current_nodes pop1) pop1 of
        Inl e \<Rightarrow> (calls @ [Call_simplify_tables], Inl e)
      | Inr (pop2, tb3) \<Rightarrow> (calls @ [Call_simplify_tables], tskit_tree_sequence lib tb3)))))"

section \<open>Properties\<close>

subsection \<open>What the properties speak of\<close>

text \<open>The half-open interval \<open>[left, right)\<close> an edge transmits.\<close>

definition span :: "edge \<Rightarrow> int set" where
  "span e = {left e..<right e}"

text \<open>The edges \<open>es\<close> all enter the child \<open>c\<close>, their intervals are pairwise disjoint and
  together they are exactly \<open>[0, L)\<close>.\<close>

definition edge_partition :: "int \<Rightarrow> int \<Rightarrow> edge list \<Rightarrow> bool" where
  "edge_partition L c es \<longleftrightarrow>
     (\<forall>e\<in>set es. child e = c) \<and>
     sorted_wrt (\<lambda>e f. span e \<inter> span f = {}) es \<and>
     (\<Union>e\<in>set es. span e) = {0..<L}"

text \<open>An edge of a ledger of sequence length \<open>L\<close> with a proper interval:
  \<open>0 \<le> left < right \<le> L\<close>.\<close>

definition well_formed_edge :: "int \<Rightarrow> edge \<Rightarrow> bool" where
  "well_formed_edge L e \<longleftrightarrow> 0 \<le> left e \<and> left e < right e \<and> right e \<le> L"

text \<open>
  The crossovers that one call of the crossover \<^verbatim>\<open>add_inheritance_paths\<close> derives from the
  generator's draws, by its lines
  \<^verbatim>\<open>num_recombinations = random.poisson(recombination_rate * L)\<close>,
  \<^verbatim>\<open>breakpoints = random.integers(0, L - 1, size=num_recombinations)\<close>,
  \<^verbatim>\<open>break_pos, counts = np.unique(breakpoints, return_counts=True)\<close> and
  \<^verbatim>\<open>crossovers = break_pos[counts % 2 == 1]\<close>: the positions drawn an odd number of
  times, in ascending order.
\<close>

definition crossovers_drawn :: "tables \<Rightarrow> rng \<Rightarrow> int list" where
  "crossovers_drawn tb r =
     (case random_poisson r of (num_recombinations, r1) \<Rightarrow>
        (case random_integers_size 0 (sequence_length tb - 1) num_recombinations r1 of
           Inl e \<Rightarrow> []
         | Inr (breakpoints, r2) \<Rightarrow>
             map fst (filter (\<lambda>(pos, cnt). cnt mod 2 = 1) (np_unique_counts breakpoints))))"

text \<open>A binding of \<^verbatim>\<open>add_inheritance_paths\<close> that, on a ledger of sequence length \<open>L\<close>,
  never raises, only appends edges, and appends only edges that satisfy \<open>E\<close> and go from
  one of the two parental genomes into the given child.\<close>

definition appends_paths :: "inheritance \<Rightarrow> int \<Rightarrow> (edge \<Rightarrow> bool) \<Rightarrow> bool" where
  "appends_paths aip L E \<longleftrightarrow>
     (\<forall>tb pg c r. sequence_length tb = L \<longrightarrow>
        (\<exists>es r'. aip tb pg c r = Inr (tb\<lparr>edges := edges tb @ es\<rparr>, r') \<and>
           (\<forall>e\<in>set es. child e = c \<and> (parent e = fst pg \<or> parent e = snd pg) \<and> E e)))"

text \<open>One round of a cohort loop: the ledger \<open>tb'\<close> is \<open>tb\<close> with one more individual
  (parents \<open>ps\<close>), that individual's two nodes (flags \<open>fl\<close>, time \<open>t\<close>), and the edges \<open>es\<close>
  into the two new nodes from the genomes of the individuals \<open>m\<close> and \<open>f\<close> of the previous
  population; the new individual is entered into the population.\<close>

definition child_added ::
  "tables \<Rightarrow> int \<Rightarrow> population \<Rightarrow> population \<Rightarrow> int \<Rightarrow> int list \<Rightarrow> int \<Rightarrow> int \<Rightarrow>
     edge list \<Rightarrow> tables \<Rightarrow> population \<Rightarrow> bool" where
  "child_added tb t prev pop fl ps m f es tb' pop' \<longleftrightarrow>
     pop' = dict_set pop (int (length (individuals tb)))
              (int (length (nodes tb)), int (length (nodes tb)) + 1) \<and>
     individuals tb' = individuals tb @ [\<lparr>parents = ps\<rparr>] \<and>
     nodes tb' = nodes tb @
       [\<lparr>flags = fl, time = t, individual = int (length (individuals tb))\<rparr>,
        \<lparr>flags = fl, time = t, individual = int (length (individuals tb))\<rparr>] \<and>
     edges tb' = edges tb @ es \<and>
     sequence_length tb' = sequence_length tb \<and>
     (\<forall>e\<in>set es. \<exists>pg.
        (child e = int (length (nodes tb)) \<and> map_of prev m = Some pg \<or>
         child e = int (length (nodes tb)) + 1 \<and> map_of prev f = Some pg) \<and>
        (parent e = fst pg \<or> parent e = snd pg))"

text \<open>Any number of such rounds, each with \<open>R fl ps m f es\<close>.\<close>

inductive cohort_added ::
  "(int \<Rightarrow> int list \<Rightarrow> int \<Rightarrow> int \<Rightarrow> edge list \<Rightarrow> bool) \<Rightarrow> int \<Rightarrow> population \<Rightarrow>
     tables \<Rightarrow> population \<Rightarrow> tables \<Rightarrow> population \<Rightarrow> bool"
  for R :: "int \<Rightarrow> int list \<Rightarrow> int \<Rightarrow> int \<Rightarrow> edge list \<Rightarrow> bool"
    and t :: int and prev :: population where
  cohort_none: "cohort_added R t prev tb pop tb pop"
| cohort_child:
    "child_added tb t prev pop fl ps m f es tb1 pop1 \<Longrightarrow> R fl ps m f es \<Longrightarrow>
     cohort_added R t prev tb1 pop1 tb2 pop2 \<Longrightarrow>
     cohort_added R t prev tb pop tb2 pop2"

text \<open>The rounds of \<^verbatim>\<open>new_pop\<close> record the parents they inherit from; the rounds of
  \<^verbatim>\<open>new_population\<close> flag their nodes as samples and add focal-region edges only.\<close>

definition recorded_round :: "int \<Rightarrow> int list \<Rightarrow> int \<Rightarrow> int \<Rightarrow> edge list \<Rightarrow> bool" where
  "recorded_round fl ps m f es \<longleftrightarrow> ps = [m, f]"

definition focal_edge :: "edge \<Rightarrow> bool" where
  "focal_edge e \<longleftrightarrow> left e = 20000 \<and> right e = 21000"

definition focal_round :: "int \<Rightarrow> int list \<Rightarrow> int \<Rightarrow> int \<Rightarrow> edge list \<Rightarrow> bool" where
  "focal_round fl ps m f es \<longleftrightarrow> fl = NODE_IS_SAMPLE \<and> (\<forall>e\<in>set es. focal_edge e)"

text \<open>\<open>g\<close> is the id of a node of the ledger, born at time \<open>t\<close>.\<close>

definition node_at :: "tables \<Rightarrow> int \<Rightarrow> int \<Rightarrow> bool" where
  "node_at tb t g \<longleftrightarrow> 0 \<le> g \<and> nat g < length (nodes tb) \<and> time (nodes tb ! nat g) = t"

text \<open>Every genome of the population is a node of the ledger born at time \<open>t\<close>.\<close>

definition pop_at :: "tables \<Rightarrow> int \<Rightarrow> population \<Rightarrow> bool" where
  "pop_at tb t pop \<longleftrightarrow> (\<forall>(i, (g1, g2))\<in>set pop. node_at tb t g1 \<and> node_at tb t g2)"

text \<open>Every edge joins two nodes of the ledger, the parent born strictly earlier (at a
  greater time ago) than the child.\<close>

definition time_monotone :: "tables \<Rightarrow> bool" where
  "time_monotone tb \<longleftrightarrow>
     (\<forall>e\<in>set (edges tb). \<exists>tp tc.
        node_at tb tp (parent e) \<and> node_at tb tc (child e) \<and> tc < tp)"

text \<open>The node table has two rows for each individual, and node \<open>j\<close> refers to individual
  \<open>j div 2\<close>: individual \<open>k\<close> owns exactly the nodes \<open>2k\<close> and \<open>2k + 1\<close>.\<close>

definition genomes_paired :: "tables \<Rightarrow> bool" where
  "genomes_paired tb \<longleftrightarrow>
     length (nodes tb) = 2 * length (individuals tb) \<and>
     (\<forall>j<length (nodes tb). individual (nodes tb ! j) = int (j div 2))"

text \<open>\<open>g\<close> is the id of a node of the ledger that refers to individual \<open>i\<close>.\<close>

definition node_owner :: "tables \<Rightarrow> int \<Rightarrow> int \<Rightarrow> bool" where
  "node_owner tb g i \<longleftrightarrow> 0 \<le> g \<and> nat g < length (nodes tb) \<and> individual (nodes tb ! nat g) = i"

text \<open>Every entry of the population maps an individual's id to two nodes that refer to
  that individual.\<close>

definition pop_owned :: "tables \<Rightarrow> population \<Rightarrow> bool" where
  "pop_owned tb pop \<longleftrightarrow> (\<forall>(i, (g1, g2))\<in>set pop. node_owner tb g1 i \<and> node_owner tb g2 i)"

text \<open>
  The parents recorded in the individual table are the parents inherited from: every edge
  enters a node of an individual \<open>c\<close> whose row records two parents \<open>[m, f]\<close>, and leaves a
  node of \<open>m\<close> when it enters the first genome of \<open>c\<close> (the even node id) and a node of \<open>f\<close>
  when it enters the second.
\<close>

definition parents_recorded :: "tables \<Rightarrow> bool" where
  "parents_recorded tb \<longleftrightarrow>
     (\<forall>e\<in>set (edges tb). \<exists>c p m f.
        node_owner tb (child e) c \<and> node_owner tb (parent e) p \<and>
        0 \<le> c \<and> nat c < length (individuals tb) \<and>
        parents (individuals tb ! nat c) = [m, f] \<and>
        p = (if even (child e) then m else f))"


text \<open>The shape of a ledger after the founders and one generation of \<open>N\<close> individuals: \<open>2N\<close>
  founder nodes of time 1, then \<open>2N\<close> nodes of time 0, all flagged as samples, and only
  focal-region edges, each from a founder node into a node of time 0.\<close>

definition one_generation :: "nat \<Rightarrow> tables \<Rightarrow> bool" where
  "one_generation N tb \<longleftrightarrow>
     sequence_length tb = 50000 \<and>
     (\<exists>fs cs. nodes tb = fs @ cs \<and> length fs = 2 * N \<and> length cs = 2 * N \<and>
        (\<forall>x\<in>set fs. flags x = NODE_IS_SAMPLE \<and> time x = 1) \<and>
        (\<forall>x\<in>set cs. flags x = NODE_IS_SAMPLE \<and> time x = 0)) \<and>
     (\<forall>e\<in>set (edges tb). focal_edge e \<and> 0 \<le> parent e \<and> parent e < 2 * int N \<and>
        2 * int N \<le> child e \<and> child e < 4 * int N)"

subsection \<open>Inheritance paths\<close>

lemma tuple_index_lt2:
  "i < 2 \<Longrightarrow> \<exists>p. tuple_index pg i = Inr p \<and> (p = fst pg \<or> p = snd pg)"
  by (cases "i = 0") (auto simp: tuple_index_def)

lemma add_paths_frame:
  "i < 2 \<Longrightarrow> \<exists>es. add_paths tb ivs pg i c = Inr (tb\<lparr>edges := edges tb @ es\<rparr>) \<and>
      map (\<lambda>e. (left e, right e)) es = ivs \<and>
      (\<forall>e\<in>set es. child e = c \<and> (parent e = fst pg \<or> parent e = snd pg))"
proof (induction ivs arbitrary: tb i)
  case Nil
  then show ?case by simp
next
  case (Cons iv ivs)
  obtain l rt where iv: "iv = (l, rt)" by (cases iv)
  from Cons.prems obtain p where p: "tuple_index pg i = Inr p" "p = fst pg \<or> p = snd pg"
    using tuple_index_lt2 by blast
  have "1 - i < 2" using Cons.prems by simp
  from Cons.IH[OF this, of "edges_add_row l rt p c tb"] obtain es where
    es: "add_paths (edges_add_row l rt p c tb) ivs pg (1 - i) c =
          Inr ((edges_add_row l rt p c tb)\<lparr>edges := edges (edges_add_row l rt p c tb) @ es\<rparr>)"
        "map (\<lambda>e. (left e, right e)) es = ivs"
        "\<forall>e\<in>set es. child e = c \<and> (parent e = fst pg \<or> parent e = snd pg)"
    by blast
  show ?case
    apply (rule exI[of _ "\<lparr>left = l, right = rt, parent = p, child = c\<rparr> # es"])
    using es p by (simp add: iv edges_add_row_def)
qed


lemma chain_partition:
  "sorted cs \<Longrightarrow> \<forall>x\<in>set cs. lo \<le> x \<and> x \<le> L \<Longrightarrow> lo \<le> L \<Longrightarrow>
   map (\<lambda>e. (left e, right e)) es = zip (lo # cs) (cs @ [L]) \<Longrightarrow>
   sorted_wrt (\<lambda>e f. span e \<inter> span f = {}) es \<and> (\<Union>e\<in>set es. span e) = {lo..<L}"
proof (induction cs arbitrary: lo es)
  case Nil
  then show ?case by (auto simp: span_def)
next
  case (Cons c cs)
  from Cons.prems(4) obtain e es' where es: "es = e # es'" "left e = lo" "right e = c"
     "map (\<lambda>e. (left e, right e)) es' = zip (c # cs) (cs @ [L])"
    by (cases es) (auto simp del: zip_Cons_Cons, auto)
  have "sorted cs" "\<forall>x\<in>set cs. c \<le> x \<and> x \<le> L" "c \<le> L" "lo \<le> c"
    using Cons.prems by auto
  from Cons.IH[OF this(1,2,3) es(4)]
  have ih: "sorted_wrt (\<lambda>e f. span e \<inter> span f = {}) es'" "(\<Union>e\<in>set es'. span e) = {c..<L}"
    by auto
  have sp: "span e = {lo..<c}" by (simp add: span_def es)
  have d: "\<forall>f\<in>set es'. span e \<inter> span f = {}"
  proof
    fix f assume "f \<in> set es'"
    then have "span f \<subseteq> {c..<L}" using ih(2) by blast
    then show "span e \<inter> span f = {}" unfolding sp by auto
  qed
  have u: "{lo..<c} \<union> {c..<L} = {lo..<L}"
    using \<open>lo \<le> c\<close> \<open>c \<le> L\<close> by auto
  have "(\<Union>e\<in>set es. span e) = span e \<union> (\<Union>e\<in>set es'. span e)"
    by (simp add: es(1))
  also have "\<dots> = {lo..<L}" unfolding ih(2) sp by (rule u)
  finally have un: "(\<Union>e\<in>set es. span e) = {lo..<L}" .
  have "sorted_wrt (\<lambda>e f. span e \<inter> span f = {}) es"
    unfolding es(1) using d ih(1) by simp
  with un show ?case by blast
qed


lemma chain_proper:
  "sorted cs \<Longrightarrow> distinct cs \<Longrightarrow> \<forall>x\<in>set cs. lo < x \<and> x < L \<Longrightarrow> lo < L \<Longrightarrow>
   map (\<lambda>e. (left e, right e)) es = zip (lo # cs) (cs @ [L]) \<Longrightarrow>
   \<forall>e\<in>set es. lo \<le> left e \<and> left e < right e \<and> right e \<le> L"
proof (induction cs arbitrary: lo es)
  case Nil
  then show ?case by auto
next
  case (Cons c cs)
  from Cons.prems(5) obtain e es' where es: "es = e # es'" "left e = lo" "right e = c"
     "map (\<lambda>e. (left e, right e)) es' = zip (c # cs) (cs @ [L])"
    by (cases es) (auto simp del: zip_Cons_Cons, auto)
  have c: "lo < c" "c < L" using Cons.prems(3) by simp_all
  have "sorted cs" "distinct cs" using Cons.prems(1,2) by simp_all
  moreover have "\<forall>x\<in>set cs. c < x \<and> x < L"
  proof
    fix x assume x: "x \<in> set cs"
    then have "c \<le> x" "c \<noteq> x" using Cons.prems(1,2) by auto
    moreover have "x < L" using Cons.prems(3) x by simp
    ultimately show "c < x \<and> x < L" by simp
  qed
  ultimately have ih: "\<forall>e\<in>set es'. c \<le> left e \<and> left e < right e \<and> right e \<le> L"
    using Cons.IH[OF _ _ _ c(2) es(4)] by blast
  show ?case
  proof
    fix f assume "f \<in> set es"
    then consider "f = e" | "f \<in> set es'" unfolding es(1) by auto
    then show "lo \<le> left f \<and> left f < right f \<and> right f \<le> L"
    proof cases
      case 1
      then show ?thesis using es(2,3) c by simp
    next
      case 2
      with ih have "c \<le> left f" "left f < right f" "right f \<le> L" by simp_all
      then show ?thesis using c(1) by simp
    qed
  qed
qed


lemma draw_integers_range:
  "low < high \<Longrightarrow> draw_integers low high n r = (xs, r') \<Longrightarrow> \<forall>x\<in>set xs. low \<le> x \<and> x < high"
proof (induction n arbitrary: r xs r')
  case 0
  then show ?case by simp
next
  case (Suc n)
  obtain x r1 where d: "draw r = (x, r1)" by (cases "draw r")
  obtain ys r2 where ds: "draw_integers low high n r1 = (ys, r2)"
    by (cases "draw_integers low high n r1")
  have xs: "xs = (low + int (x mod nat (high - low))) # ys"
    using Suc.prems(2) by (simp add: d ds)
  have "x mod nat (high - low) < nat (high - low)"
    using Suc.prems(1) by simp
  then have "low + int (x mod nat (high - low)) < high" by linarith
  moreover have "\<forall>y\<in>set ys. low \<le> y \<and> y < high"
    using Suc.IH[OF Suc.prems(1) ds] .
  ultimately show ?case by (simp add: xs)
qed

lemma crossovers_filter:
  "map fst (filter P (np_unique_counts xs)) =
     filter (\<lambda>v. P (v, count_list xs v)) (sort (remdups xs))"
  by (simp add: np_unique_counts_def filter_map comp_def)

lemma crossovers_sorted: "sorted (map fst (filter P (np_unique_counts xs)))"
  unfolding crossovers_filter by (rule sorted_wrt_filter) simp

lemma crossovers_subset: "set (map fst (filter P (np_unique_counts xs))) \<subseteq> set xs"
  unfolding crossovers_filter by auto

lemma crossovers_distinct: "distinct (map fst (filter P (np_unique_counts xs)))"
  unfolding crossovers_filter by simp


lemma add_inheritance_paths_focal_run:
  "\<exists>p r'. add_inheritance_paths_focal tb pg c r =
       Inr (tb\<lparr>edges := edges tb @ [\<lparr>left = 20000, right = 21000, parent = p, child = c\<rparr>]\<rparr>, r') \<and>
     (p = fst pg \<or> p = snd pg)"
proof -
  obtain i r1 where ig: "random_integers 2 r = (i, r1)" by (cases "random_integers 2 r")
  have "i < 2" using ig by (auto simp: random_integers_def split: prod.splits)
  then obtain p where "tuple_index pg i = Inr p" "p = fst pg \<or> p = snd pg"
    using tuple_index_lt2 by blast
  then show ?thesis
    by (intro exI[of _ p] exI[of _ r1])
      (simp add: add_inheritance_paths_focal_def focal_region_def ig edges_add_row_def)
qed

lemma add_inheritance_paths_intervals:
  assumes "1 < sequence_length tb"
  shows "\<exists>es r'. add_inheritance_paths tb pg c r = Inr (tb\<lparr>edges := edges tb @ es\<rparr>, r') \<and>
           map (\<lambda>e. (left e, right e)) es =
             zip (0 # crossovers_drawn tb r) (crossovers_drawn tb r @ [sequence_length tb]) \<and>
           (\<forall>e\<in>set es. child e = c \<and> (parent e = fst pg \<or> parent e = snd pg))"
proof -
  define L where "L = sequence_length tb"
  obtain n r1 where po: "random_poisson r = (n, r1)" by (cases "random_poisson r")
  have L: "0 < L - 1" using assms by (simp add: L_def)
  have "\<exists>bps r2. random_integers_size 0 (L - 1) n r1 = Inr (bps, r2)"
    using L by (cases "draw_integers 0 (L - 1) n r1") (simp add: random_integers_size_def)
  then obtain bps r2 where ri: "random_integers_size 0 (L - 1) n r1 = Inr (bps, r2)"
    by blast
  define cs where "cs = map fst (filter (\<lambda>(pos, cnt). cnt mod 2 = 1) (np_unique_counts bps))"
  have cd: "crossovers_drawn tb r = cs"
    unfolding crossovers_drawn_def L_def[symmetric] cs_def by (simp add: po ri)
  obtain i r3 where ig: "random_integers 2 r2 = (i, r3)" by (cases "random_integers 2 r2")
  have i2: "i < 2" using ig by (auto simp: random_integers_def split: prod.splits)
  from add_paths_frame[OF i2, of tb "zip (0 # cs) (cs @ [L])" pg c] obtain es where
    es: "add_paths tb (zip (0 # cs) (cs @ [L])) pg i c = Inr (tb\<lparr>edges := edges tb @ es\<rparr>)"
        "map (\<lambda>e. (left e, right e)) es = zip (0 # cs) (cs @ [L])"
        "\<forall>e\<in>set es. child e = c \<and> (parent e = fst pg \<or> parent e = snd pg)"
    by blast
  have run: "add_inheritance_paths tb pg c r = Inr (tb\<lparr>edges := edges tb @ es\<rparr>, r3)"
    using es(1) unfolding add_inheritance_paths_def Let_def L_def[symmetric] cs_def
    by (simp add: po ri ig)
  from run es(2,3) show ?thesis unfolding cd L_def by blast
qed

lemma crossovers_drawn_sorted: "sorted (crossovers_drawn tb r) \<and> distinct (crossovers_drawn tb r)"
  unfolding crossovers_drawn_def
  by (simp add: crossovers_sorted crossovers_distinct split: prod.splits sum.splits)

lemma crossovers_drawn_range:
  assumes "1 < sequence_length tb"
  shows "\<forall>x\<in>set (crossovers_drawn tb r). 0 \<le> x \<and> x < sequence_length tb - 1"
proof
  fix x assume x: "x \<in> set (crossovers_drawn tb r)"
  define L where "L = sequence_length tb"
  obtain n r1 where po: "random_poisson r = (n, r1)" by (cases "random_poisson r")
  obtain bps r2 where dr: "draw_integers 0 (L - 1) n r1 = (bps, r2)"
    by (cases "draw_integers 0 (L - 1) n r1")
  have L: "0 < L - 1" using assms by (simp add: L_def)
  have bps: "\<forall>y\<in>set bps. 0 \<le> y \<and> y < L - 1" using draw_integers_range[OF L dr] .
  have "n = 0 \<Longrightarrow> bps = []" using dr by simp
  then have "crossovers_drawn tb r =
      map fst (filter (\<lambda>(pos, cnt). cnt mod 2 = 1) (np_unique_counts bps))"
    unfolding crossovers_drawn_def L_def[symmetric] using L
    by (cases "n = 0") (simp_all add: po random_integers_size_def dr np_unique_counts_def)
  then have "x \<in> set bps" using x crossovers_subset by fastforce
  then show "0 \<le> x \<and> x < sequence_length tb - 1" using bps by (simp add: L_def)
qed

lemma add_inheritance_paths_run:
  assumes "1 < sequence_length tb"
  shows "\<exists>es r'. add_inheritance_paths tb pg c r = Inr (tb\<lparr>edges := edges tb @ es\<rparr>, r') \<and>
           edge_partition (sequence_length tb) c es \<and>
           (\<forall>e\<in>set es. parent e = fst pg \<or> parent e = snd pg)"
proof -
  define L where "L = sequence_length tb"
  define cs where "cs = crossovers_drawn tb r"
  from add_inheritance_paths_intervals[OF assms, of pg c r] obtain es r' where
    run: "add_inheritance_paths tb pg c r = Inr (tb\<lparr>edges := edges tb @ es\<rparr>, r')" and
    iv: "map (\<lambda>e. (left e, right e)) es = zip (0 # cs) (cs @ [L])" and
    es: "\<forall>e\<in>set es. child e = c \<and> (parent e = fst pg \<or> parent e = snd pg)"
    unfolding cs_def L_def by blast
  have srt: "sorted cs" unfolding cs_def using crossovers_drawn_sorted by blast
  have rng: "\<forall>x\<in>set cs. 0 \<le> x \<and> x \<le> L"
    using crossovers_drawn_range[OF assms, of r] unfolding cs_def L_def by fastforce
  have "0 \<le> L" using assms by (simp add: L_def)
  from chain_partition[OF srt rng this iv] es
  have "edge_partition L c es" by (simp add: edge_partition_def)
  with run es show ?thesis unfolding L_def by blast
qed

text \<open>
  C2 (as amended). One call of the crossover \<^verbatim>\<open>add_inheritance_paths\<close> on a ledger whose
  sequence length \<open>L\<close> exceeds 1, when none of its crossovers falls at position 0, appends
  edges that all enter the given child, each with \<open>0 \<le> left < right \<le> L\<close>, whose intervals
  are pairwise disjoint and whose union is exactly \<open>[0, L)\<close>, and changes nothing else;
  one call of the no-recombination \<^verbatim>\<open>add_inheritance_paths\<close> appends the single edge
  \<open>[20000, 21000)\<close> from one of the two parental genomes.
\<close>

theorem add_inheritance_paths_partition:
  assumes "1 < sequence_length tb" and "0 \<notin> set (crossovers_drawn tb r)"
  shows "(\<exists>es r'. add_inheritance_paths tb pg c r = Inr (tb\<lparr>edges := edges tb @ es\<rparr>, r') \<and>
            edge_partition (sequence_length tb) c es \<and>
            (\<forall>e\<in>set es. well_formed_edge (sequence_length tb) e)) \<and>
         (\<exists>p r'. add_inheritance_paths_focal tb pg c r =
            Inr (tb\<lparr>edges := edges tb @ [\<lparr>left = 20000, right = 21000, parent = p, child = c\<rparr>]\<rparr>, r') \<and>
            (p = fst pg \<or> p = snd pg))"
proof
  define L where "L = sequence_length tb"
  define cs where "cs = crossovers_drawn tb r"
  from add_inheritance_paths_intervals[OF assms(1), of pg c r] obtain es r' where
    run: "add_inheritance_paths tb pg c r = Inr (tb\<lparr>edges := edges tb @ es\<rparr>, r')" and
    iv: "map (\<lambda>e. (left e, right e)) es = zip (0 # cs) (cs @ [L])" and
    es: "\<forall>e\<in>set es. child e = c \<and> (parent e = fst pg \<or> parent e = snd pg)"
    unfolding cs_def L_def by blast
  have srt: "sorted cs" "distinct cs" unfolding cs_def using crossovers_drawn_sorted by blast+
  have in_range: "\<forall>x\<in>set cs. 0 \<le> x \<and> x < L - 1"
    using crossovers_drawn_range[OF assms(1), of r] unfolding cs_def L_def .
  have L: "0 < L" "0 \<le> L" using assms(1) by (simp_all add: L_def)
  have weak: "\<forall>x\<in>set cs. 0 \<le> x \<and> x \<le> L" using in_range by fastforce
  have strict: "\<forall>x\<in>set cs. 0 < x \<and> x < L"
  proof
    fix x assume x: "x \<in> set cs"
    then have "x \<noteq> 0" using assms(2) unfolding cs_def by auto
    moreover have "0 \<le> x" "x < L - 1" using in_range x by simp_all
    ultimately show "0 < x \<and> x < L" by simp
  qed
  from chain_partition[OF srt(1) weak L(2) iv] es
  have part: "edge_partition L c es" by (simp add: edge_partition_def)
  from chain_proper[OF srt strict L(1) iv]
  have "\<forall>e\<in>set es. well_formed_edge L e" by (simp add: well_formed_edge_def)
  with run part
  show "\<exists>es r'. add_inheritance_paths tb pg c r = Inr (tb\<lparr>edges := edges tb @ es\<rparr>, r') \<and>
            edge_partition (sequence_length tb) c es \<and>
            (\<forall>e\<in>set es. well_formed_edge (sequence_length tb) e)"
    unfolding L_def by blast
next
  show "\<exists>p r'. add_inheritance_paths_focal tb pg c r =
            Inr (tb\<lparr>edges := edges tb @ [\<lparr>left = 20000, right = 21000, parent = p, child = c\<rparr>]\<rparr>, r') \<and>
            (p = fst pg \<or> p = snd pg)"
    by (rule add_inheritance_paths_focal_run)
qed

lemma crossovers_drawn_example: "crossovers_drawn (TableCollection 10) [3, 5, 2, 5, 1] = [2]"
  by code_simp

theorem add_inheritance_paths_partition_witness:
  "1 < sequence_length (TableCollection 10) \<and>
   0 \<notin> set (crossovers_drawn (TableCollection 10) [3, 5, 2, 5, 1]) \<and>
   (\<exists>es r'. add_inheritance_paths (TableCollection 10) (0, 1) 2 [3, 5, 2, 5, 1] =
        Inr ((TableCollection 10)\<lparr>edges := edges (TableCollection 10) @ es\<rparr>, r') \<and>
      edge_partition (sequence_length (TableCollection 10)) 2 es \<and>
      (\<forall>e\<in>set es. well_formed_edge (sequence_length (TableCollection 10)) e)) \<and>
   (\<exists>p r'. add_inheritance_paths_focal (TableCollection 10) (0, 1) 2 [3, 5, 2, 5, 1] =
        Inr ((TableCollection 10)\<lparr>edges := edges (TableCollection 10) @
               [\<lparr>left = 20000, right = 21000, parent = p, child = 2\<rparr>]\<rparr>, r') \<and>
      (p = fst (0::int, 1::int) \<or> p = snd (0::int, 1::int)))"
proof -
  have h: "1 < sequence_length (TableCollection 10)"
    by (simp add: TableCollection_def)
  have z: "0 \<notin> set (crossovers_drawn (TableCollection 10) [3, 5, 2, 5, 1])"
    by (subst crossovers_drawn_example) simp
  show ?thesis
    by (rule conjI[OF h conjI[OF z add_inheritance_paths_partition[OF h z, of "(0, 1)" 2]]])
qed

text \<open>
  C2 (as stated) fails for the no-recombination variant: on the notebook's ledger of
  length 50000 the one edge it appends for child 12 covers \<open>[20000, 21000)\<close> only.
\<close>

theorem add_inheritance_paths_focal_counterexample:
  "add_inheritance_paths_focal (TableCollection 50000) (0, 1) 12 [1] =
     Inr ((TableCollection 50000)
            \<lparr>edges := [\<lparr>left = 20000, right = 21000, parent = 1, child = 12\<rparr>]\<rparr>, []) \<and>
   \<not> edge_partition 50000 12 [\<lparr>left = 20000, right = 21000, parent = 1, child = 12\<rparr>]"
proof
  show "add_inheritance_paths_focal (TableCollection 50000) (0, 1) 12 [1] =
     Inr ((TableCollection 50000)
            \<lparr>edges := [\<lparr>left = 20000, right = 21000, parent = 1, child = 12\<rparr>]\<rparr>, [])"
    by (simp add: add_inheritance_paths_focal_def focal_region_def random_integers_def
        tuple_index_def edges_add_row_def TableCollection_def)
next
  have "(0::int) \<in> {0..<50000}" by simp
  moreover have "(0::int) \<notin> {20000..<21000}" by simp
  ultimately have "{20000..<21000} \<noteq> {0..<50000::int}" by blast
  then show "\<not> edge_partition 50000 12 [\<lparr>left = 20000, right = 21000, parent = 1, child = 12\<rparr>]"
    by (simp add: edge_partition_def span_def)
qed

text \<open>
  A crossover at position 0 is outside the theorem above. The generator can draw it
  (\<^verbatim>\<open>random.integers(0, L - 1, ...)\<close> includes 0), and the call then appends the empty
  interval \<open>[0, 0)\<close> as its first edge: here one breakpoint is drawn, at 0.
\<close>

lemma add_inheritance_paths_crossover_at_zero:
  "add_inheritance_paths (TableCollection 50000) (0, 1) 12 [1, 0, 0] =
     Inr ((TableCollection 50000)
            \<lparr>edges := [\<lparr>left = 0, right = 0, parent = 0, child = 12\<rparr>,
                       \<lparr>left = 0, right = 50000, parent = 1, child = 12\<rparr>]\<rparr>, [])"
  by (simp add: add_inheritance_paths_def random_poisson_def random_integers_size_def
      np_unique_counts_def random_integers_def tuple_index_def edges_add_row_def
      TableCollection_def Let_def)

subsection \<open>What one round of a cohort loop does\<close>

lemma appends_paths_focal: "appends_paths add_inheritance_paths_focal L focal_edge"
  unfolding appends_paths_def
proof (intro allI impI)
  fix tb :: tables and pg c r
  from add_inheritance_paths_focal_run[of tb pg c r] obtain p r' where
    "add_inheritance_paths_focal tb pg c r =
       Inr (tb\<lparr>edges := edges tb @ [\<lparr>left = 20000, right = 21000, parent = p, child = c\<rparr>]\<rparr>, r')"
    "p = fst pg \<or> p = snd pg" by blast
  then show "\<exists>es r'. add_inheritance_paths_focal tb pg c r = Inr (tb\<lparr>edges := edges tb @ es\<rparr>, r') \<and>
           (\<forall>e\<in>set es. child e = c \<and> (parent e = fst pg \<or> parent e = snd pg) \<and> focal_edge e)"
    by (intro exI[of _ "[\<lparr>left = 20000, right = 21000, parent = p, child = c\<rparr>]"] exI[of _ r'])
      (simp add: focal_edge_def)
qed

lemma appends_paths_crossover: "1 < L \<Longrightarrow> appends_paths add_inheritance_paths L (\<lambda>e. True)"
  unfolding appends_paths_def
proof (intro allI impI)
  fix tb :: tables and pg c r
  assume "1 < L" "sequence_length tb = L"
  then have "1 < sequence_length tb" by simp
  from add_inheritance_paths_run[OF this, of pg c r] obtain es r' where
    "add_inheritance_paths tb pg c r = Inr (tb\<lparr>edges := edges tb @ es\<rparr>, r')"
    "edge_partition (sequence_length tb) c es"
    "\<forall>e\<in>set es. parent e = fst pg \<or> parent e = snd pg"
    by blast
  then show "\<exists>es r'. add_inheritance_paths tb pg c r = Inr (tb\<lparr>edges := edges tb @ es\<rparr>, r') \<and>
           (\<forall>e\<in>set es. child e = c \<and> (parent e = fst pg \<or> parent e = snd pg) \<and> True)"
    by (intro exI[of _ es] exI[of _ r']) (simp add: edge_partition_def)
qed

lemma inherit_genomes_two:
  assumes ok: "appends_paths aip (sequence_length tb) E"
    and m: "map_of prev m = Some pgm" and f: "map_of prev f = Some pgf"
  shows "\<exists>es r'. inherit_genomes aip tb prev [(g1, m), (g2, f)] r =
            Inr (tb\<lparr>edges := edges tb @ es\<rparr>, r') \<and>
          (\<forall>e\<in>set es. \<exists>pg. (child e = g1 \<and> map_of prev m = Some pg \<or>
                                child e = g2 \<and> map_of prev f = Some pg) \<and>
                               (parent e = fst pg \<or> parent e = snd pg)) \<and>
          (\<forall>e\<in>set es. E e)"
proof -
  from ok obtain es1 r1 where
    s1: "aip tb pgm g1 r = Inr (tb\<lparr>edges := edges tb @ es1\<rparr>, r1)"
        "\<forall>e\<in>set es1. child e = g1 \<and> (parent e = fst pgm \<or> parent e = snd pgm) \<and> E e"
    unfolding appends_paths_def by blast
  let ?tb1 = "tb\<lparr>edges := edges tb @ es1\<rparr>"
  have "sequence_length ?tb1 = sequence_length tb" by simp
  with ok obtain es2 r2 where
    s2: "aip ?tb1 pgf g2 r1 = Inr (?tb1\<lparr>edges := edges ?tb1 @ es2\<rparr>, r2)"
        "\<forall>e\<in>set es2. child e = g2 \<and> (parent e = fst pgf \<or> parent e = snd pgf) \<and> E e"
    unfolding appends_paths_def by blast
  have run: "inherit_genomes aip tb prev [(g1, m), (g2, f)] r =
      Inr (tb\<lparr>edges := edges tb @ (es1 @ es2)\<rparr>, r2)"
    by (simp add: dict_get_def m f s1(1) s2(1))
  have "\<forall>e\<in>set (es1 @ es2). \<exists>pg. (child e = g1 \<and> map_of prev m = Some pg \<or>
                                child e = g2 \<and> map_of prev f = Some pg) \<and>
                               (parent e = fst pg \<or> parent e = snd pg)"
  proof
    fix e assume "e \<in> set (es1 @ es2)"
    then consider "e \<in> set es1" | "e \<in> set es2" by auto
    then show "\<exists>pg. (child e = g1 \<and> map_of prev m = Some pg \<or>
                       child e = g2 \<and> map_of prev f = Some pg) \<and>
                      (parent e = fst pg \<or> parent e = snd pg)"
    proof cases
      case 1
      then show ?thesis using s1(2) m by (intro exI[of _ pgm]) simp
    next
      case 2
      then show ?thesis using s2(2) f by (intro exI[of _ pgf]) simp
    qed
  qed
  moreover have "\<forall>e\<in>set (es1 @ es2). E e" using s1(2) s2(2) by auto
  ultimately show ?thesis using run by blast
qed

lemma random_choice2_keys:
  assumes "a \<noteq> []"
  shows "\<exists>m f r'. random_choice2 a r = Inr ((m, f), r') \<and> m \<in> set a \<and> f \<in> set a"
proof -
  obtain i r1 where d1: "draw r = (i, r1)" by (cases "draw r")
  obtain j r2 where d2: "draw r1 = (j, r2)" by (cases "draw r1")
  have "a ! (i mod length a) \<in> set a" "a ! (j mod length a) \<in> set a"
    using assms by simp_all
  then show ?thesis using assms by (simp add: random_choice2_def d1 d2)
qed

lemma key_lookup: "k \<in> set (dict_keys d) \<Longrightarrow> \<exists>v. map_of d k = Some v"
  by (induction d) (auto simp: dict_keys_def)

lemma new_pop_round_effect:
  assumes ok: "appends_paths add_inheritance_paths (sequence_length tb) E"
    and ne: "prev_pop \<noteq> []"
  shows "\<exists>m f es pop' tb' r'.
           new_pop_round tb t prev_pop (dict_keys prev_pop) pop r = Inr (pop', tb', r') \<and>
           child_added tb t prev_pop pop 0 [m, f] m f es tb' pop'"
proof -
  have "dict_keys prev_pop \<noteq> []" using ne by (simp add: dict_keys_def)
  from random_choice2_keys[OF this, of r] obtain m f r1 where
    ch: "random_choice2 (dict_keys prev_pop) r = Inr ((m, f), r1)"
        "m \<in> set (dict_keys prev_pop)" "f \<in> set (dict_keys prev_pop)"
    by blast
  from ch(2,3) obtain pgm pgf where pg: "map_of prev_pop m = Some pgm" "map_of prev_pop f = Some pgf"
    using key_lookup[of m prev_pop] key_lookup[of f prev_pop] by blast
  define k where "k = int (length (individuals tb))"
  define n where "n = int (length (nodes tb))"
  define tb1 where "tb1 = tb\<lparr>individuals := individuals tb @ [\<lparr>parents = [m, f]\<rparr>],
       nodes := nodes tb @ [\<lparr>flags = 0, time = t, individual = k\<rparr>,
                            \<lparr>flags = 0, time = t, individual = k\<rparr>]\<rparr>"
  have md: "make_diploid tb t [m, f] = ((k, (n, n + 1)), tb1)"
    by (simp add: make_diploid_def individuals_add_row_def nodes_add_row_def k_def n_def tb1_def)
  have "sequence_length tb1 = sequence_length tb" by (simp add: tb1_def)
  with ok have ok1: "appends_paths add_inheritance_paths (sequence_length tb1) E" by simp
  from inherit_genomes_two[OF ok1 pg, of n "n + 1" r1] obtain es r2 where
    ih: "inherit_genomes add_inheritance_paths tb1 prev_pop [(n, m), (n + 1, f)] r1 =
           Inr (tb1\<lparr>edges := edges tb1 @ es\<rparr>, r2)"
        "\<forall>e\<in>set es. \<exists>pg. (child e = n \<and> map_of prev_pop m = Some pg \<or>
                                child e = n + 1 \<and> map_of prev_pop f = Some pg) \<and>
                               (parent e = fst pg \<or> parent e = snd pg)"
    by blast
  have run: "new_pop_round tb t prev_pop (dict_keys prev_pop) pop r =
      Inr (dict_set pop k (n, n + 1), tb1\<lparr>edges := edges tb1 @ es\<rparr>, r2)"
    by (simp add: new_pop_round_def ch(1) md ih(1) del: inherit_genomes.simps)
  have "child_added tb t prev_pop pop 0 [m, f] m f es (tb1\<lparr>edges := edges tb1 @ es\<rparr>)
          (dict_set pop k (n, n + 1))"
    unfolding child_added_def
    using ih(2) by (simp add: tb1_def k_def n_def)
  with run show ?thesis by blast
qed

lemma make_diploid_founder:
  "\<exists>pop' tb'. (case make_diploid tb t [] of ((individual_id, genomes), tb1) \<Rightarrow>
        (dict_set pop individual_id genomes, tb1)) = (pop', tb') \<and>
      child_added tb t [] pop 0 [] 0 0 [] tb' pop'"
  unfolding child_added_def
  by (simp add: make_diploid_def individuals_add_row_def nodes_add_row_def add.commute)

lemma new_population_round_effect:
  assumes prev_def: "prev = (case prev_population of None \<Rightarrow> [] | Some d \<Rightarrow> d)"
  shows "\<exists>ps m f es pop' tb' r'.
           new_population_round tb t prev_population (dict_keys prev) pop r = Inr (pop', tb', r') \<and>
           child_added tb t prev pop NODE_IS_SAMPLE ps m f es tb' pop' \<and>
           (\<forall>e\<in>set es. focal_edge e)"
proof (cases "population_truthy prev_population")
  case False
  have "new_population_round tb t prev_population (dict_keys prev) pop r =
      Inr (dict_set pop (int (length (individuals tb)))
             (int (length (nodes tb)), int (length (nodes tb)) + 1),
           tb\<lparr>individuals := individuals tb @ [\<lparr>parents = []\<rparr>],
              nodes := nodes tb @
                [\<lparr>flags = NODE_IS_SAMPLE, time = t, individual = int (length (individuals tb))\<rparr>,
                 \<lparr>flags = NODE_IS_SAMPLE, time = t, individual = int (length (individuals tb))\<rparr>]\<rparr>, r)"
    using False
    by (simp add: new_population_round_def individuals_add_row_def nodes_add_row_def add.commute)
  moreover have "child_added tb t prev pop NODE_IS_SAMPLE [] 0 0 []
      (tb\<lparr>individuals := individuals tb @ [\<lparr>parents = []\<rparr>],
              nodes := nodes tb @
                [\<lparr>flags = NODE_IS_SAMPLE, time = t, individual = int (length (individuals tb))\<rparr>,
                 \<lparr>flags = NODE_IS_SAMPLE, time = t, individual = int (length (individuals tb))\<rparr>]\<rparr>)
      (dict_set pop (int (length (individuals tb)))
             (int (length (nodes tb)), int (length (nodes tb)) + 1))"
    unfolding child_added_def by simp
  moreover have "\<forall>e\<in>set ([] :: edge list). focal_edge e" by simp
  ultimately show ?thesis by blast
next
  case True
  then have ne: "prev \<noteq> []" and pp: "prev_population = Some prev"
    by (auto simp: population_truthy_def prev_def split: option.splits)
  have kne: "dict_keys prev \<noteq> []" using ne by (simp add: dict_keys_def)
  from random_choice2_keys[OF kne, of r] obtain m0 f0 r1 where
    ch0: "random_choice2 (dict_keys prev) r = Inr ((m0, f0), r1)" by blast
  from random_choice2_keys[OF kne, of r1] obtain m f r2 where
    ch: "random_choice2 (dict_keys prev) r1 = Inr ((m, f), r2)"
        "m \<in> set (dict_keys prev)" "f \<in> set (dict_keys prev)"
    by blast
  from ch(2,3) obtain pgm pgf where pg: "map_of prev m = Some pgm" "map_of prev f = Some pgf"
    using key_lookup[of m prev] key_lookup[of f prev] by blast
  define k where "k = int (length (individuals tb))"
  define n where "n = int (length (nodes tb))"
  define tb1 where "tb1 = tb\<lparr>individuals := individuals tb @ [\<lparr>parents = [m0, f0]\<rparr>],
       nodes := nodes tb @ [\<lparr>flags = NODE_IS_SAMPLE, time = t, individual = k\<rparr>,
                            \<lparr>flags = NODE_IS_SAMPLE, time = t, individual = k\<rparr>]\<rparr>"
  have ok1: "appends_paths add_inheritance_paths_focal (sequence_length tb1) focal_edge"
    by (rule appends_paths_focal)
  from inherit_genomes_two[OF ok1 pg, of n "n + 1" r2] obtain es r3 where
    ih: "inherit_genomes add_inheritance_paths_focal tb1 prev [(n, m), (n + 1, f)] r2 =
           Inr (tb1\<lparr>edges := edges tb1 @ es\<rparr>, r3)"
        "\<forall>e\<in>set es. \<exists>pg. (child e = n \<and> map_of prev m = Some pg \<or>
                                child e = n + 1 \<and> map_of prev f = Some pg) \<and>
                               (parent e = fst pg \<or> parent e = snd pg)"
        "\<forall>e\<in>set es. focal_edge e"
    by blast
  have run: "new_population_round tb t prev_population (dict_keys prev) pop r =
      Inr (dict_set pop k (n, n + 1), tb1\<lparr>edges := edges tb1 @ es\<rparr>, r3)"
    using True ih(1) unfolding new_population_round_def tb1_def k_def n_def
    by (simp add: ch0 ch(1) pp individuals_add_row_def nodes_add_row_def add.commute
        del: inherit_genomes.simps)
  have "child_added tb t prev pop NODE_IS_SAMPLE [m0, f0] m f es (tb1\<lparr>edges := edges tb1 @ es\<rparr>)
          (dict_set pop k (n, n + 1))"
    unfolding child_added_def
    using ih(2) by (simp add: tb1_def k_def n_def)
  with run ih(3) show ?thesis by blast
qed

subsection \<open>Invariants of the ledger\<close>

lemma dict_set_nonempty: "dict_set d k v \<noteq> []"
  by (cases d) (auto split: if_splits)

lemma set_dict_set: "set (dict_set d k v) \<subseteq> insert (k, v) (set d)"
  by (induction d) (auto split: if_splits)

lemma child_added_length: "child_added tb t prev pop fl ps m f es tb' pop' \<Longrightarrow>
  sequence_length tb' = sequence_length tb"
  by (auto simp: child_added_def)

lemma child_added_nonempty: "child_added tb t prev pop fl ps m f es tb' pop' \<Longrightarrow> pop' \<noteq> []"
  by (auto simp: child_added_def dict_set_nonempty)

lemma cohort_added_length: "cohort_added R t prev tb pop tb' pop' \<Longrightarrow>
  sequence_length tb' = sequence_length tb"
  by (induction rule: cohort_added.induct) (auto dest: child_added_length)

lemma cohort_added_nonempty: "cohort_added R t prev tb pop tb' pop' \<Longrightarrow> pop \<noteq> [] \<Longrightarrow> pop' \<noteq> []"
  by (induction rule: cohort_added.induct) (auto dest: child_added_nonempty)

lemma child_added_paired:
  assumes "child_added tb t prev pop fl ps m f es tb' pop'" "genomes_paired tb"
  shows "genomes_paired tb'"
proof -
  from assms(1) have
    i: "individuals tb' = individuals tb @ [\<lparr>parents = ps\<rparr>]" and
    n: "nodes tb' = nodes tb @
          [\<lparr>flags = fl, time = t, individual = int (length (individuals tb))\<rparr>,
           \<lparr>flags = fl, time = t, individual = int (length (individuals tb))\<rparr>]"
    unfolding child_added_def by simp_all
  from assms(2) have len: "length (nodes tb) = 2 * length (individuals tb)"
    and old: "\<And>j. j < length (nodes tb) \<Longrightarrow> individual (nodes tb ! j) = int (j div 2)"
    unfolding genomes_paired_def by auto
  have "individual (nodes tb' ! j) = int (j div 2)" if "j < length (nodes tb')" for j
  proof -
    have "j < length (nodes tb) + 2" using that by (simp add: n)
    then consider "j < length (nodes tb)" | "j = length (nodes tb)" | "j = Suc (length (nodes tb))"
      by linarith
    then show ?thesis
    proof cases
      case 1
      then show ?thesis using old n by (simp add: nth_append)
    next
      case 2
      then show ?thesis using n len by (simp add: nth_append)
    next
      case 3
      then show ?thesis using n len by (simp add: nth_append)
    qed
  qed
  moreover have "length (nodes tb') = 2 * length (individuals tb')"
    using i n len by simp
  ultimately show ?thesis unfolding genomes_paired_def by blast
qed

lemma cohort_added_paired:
  "cohort_added R t prev tb pop tb' pop' \<Longrightarrow> genomes_paired tb \<Longrightarrow> genomes_paired tb'"
  by (induction rule: cohort_added.induct) (auto dest: child_added_paired)

lemma node_at_append:
  "node_at tb t g \<Longrightarrow> nodes tb' = nodes tb @ ns \<Longrightarrow> node_at tb' t g"
  by (auto simp: node_at_def nth_append)

lemma pop_at_append:
  "pop_at tb t pop \<Longrightarrow> nodes tb' = nodes tb @ ns \<Longrightarrow> pop_at tb' t pop"
  unfolding pop_at_def by (fastforce intro: node_at_append)

lemma pop_at_lookup:
  "pop_at tb t pop \<Longrightarrow> map_of pop i = Some pg \<Longrightarrow>
   node_at tb t (fst pg) \<and> node_at tb t (snd pg)"
  unfolding pop_at_def by (cases pg) (auto dest: map_of_SomeD)

lemma child_added_time:
  assumes ca: "child_added tb t prev pop fl ps m f es tb' pop'"
    and tm: "time_monotone tb" and pv: "pop_at tb t' prev" and lt: "t < t'"
    and pp: "pop_at tb t pop"
  shows "time_monotone tb' \<and> pop_at tb' t' prev \<and> pop_at tb' t pop'"
proof -
  define k where "k = int (length (individuals tb))"
  define n where "n = int (length (nodes tb))"
  from ca have
    p': "pop' = dict_set pop k (n, n + 1)" and
    nd: "nodes tb' = nodes tb @
          [\<lparr>flags = fl, time = t, individual = k\<rparr>, \<lparr>flags = fl, time = t, individual = k\<rparr>]" and
    ed: "edges tb' = edges tb @ es" and
    es: "\<forall>e\<in>set es. \<exists>pg.
           (child e = n \<and> map_of prev m = Some pg \<or> child e = n + 1 \<and> map_of prev f = Some pg) \<and>
           (parent e = fst pg \<or> parent e = snd pg)"
    unfolding child_added_def k_def n_def by simp_all
  have new1: "node_at tb' t n" and new2: "node_at tb' t (n + 1)"
    by (simp_all add: node_at_def nd n_def nth_append nat_add_distrib)
  have prev': "pop_at tb' t' prev" using pv nd by (rule pop_at_append)
  have old': "pop_at tb' t pop" using pp nd by (rule pop_at_append)
  have "pop_at tb' t pop'"
    unfolding pop_at_def
  proof
    fix x assume "x \<in> set pop'"
    then have "x = (k, (n, n + 1)) \<or> x \<in> set pop"
      using set_dict_set[of pop k "(n, n + 1)"] unfolding p' by blast
    then show "case x of (i, g1, g2) \<Rightarrow> node_at tb' t g1 \<and> node_at tb' t g2"
      using new1 new2 old' unfolding pop_at_def by auto
  qed
  moreover have "time_monotone tb'"
    unfolding time_monotone_def
  proof
    fix e assume "e \<in> set (edges tb')"
    then consider "e \<in> set (edges tb)" | "e \<in> set es" unfolding ed by auto
    then show "\<exists>tp tc. node_at tb' tp (parent e) \<and> node_at tb' tc (child e) \<and> tc < tp"
    proof cases
      case 1
      with tm obtain tp tc where
        "node_at tb tp (parent e)" "node_at tb tc (child e)" "tc < tp"
        unfolding time_monotone_def by blast
      then show ?thesis using nd by (blast intro: node_at_append)
    next
      case 2
      with es obtain pg x where
        c: "child e = n \<or> child e = n + 1" and l: "map_of prev x = Some pg"
        and q: "parent e = fst pg \<or> parent e = snd pg"
        by blast
      from pop_at_lookup[OF prev' l] q have "node_at tb' t' (parent e)" by auto
      moreover from c new1 new2 have "node_at tb' t (child e)" by auto
      ultimately show ?thesis using lt by blast
    qed
  qed
  ultimately show ?thesis using prev' by blast
qed

lemma cohort_added_time:
  "cohort_added R t prev tb pop tb' pop' \<Longrightarrow> time_monotone tb \<Longrightarrow> pop_at tb t' prev \<Longrightarrow>
   t < t' \<Longrightarrow> pop_at tb t pop \<Longrightarrow>
   time_monotone tb' \<and> pop_at tb' t' prev \<and> pop_at tb' t pop'"
proof (induction rule: cohort_added.induct)
  case (cohort_none tb pop)
  then show ?case by simp
next
  case (cohort_child tb pop fl ps m f es tb1 pop1 tb2 pop2)
  from child_added_time[OF cohort_child.hyps(1) cohort_child.prems]
  show ?case using cohort_child.IH cohort_child.prems(3) by blast
qed

lemma new_pop_rounds_effect:
  assumes "1 < sequence_length tb" "0 < n \<longrightarrow> prev_pop \<noteq> []"
  shows "\<exists>pop' tb' r'.
           new_pop_rounds n tb t prev_pop (dict_keys prev_pop) pop r = Inr (pop', tb', r') \<and>
           cohort_added recorded_round t prev_pop tb pop tb' pop' \<and>
           (0 < n \<longrightarrow> pop' \<noteq> [])"
  using assms
proof (induction n arbitrary: tb pop r)
  case 0
  then show ?case by (auto intro: cohort_none)
next
  case (Suc n)
  have ok: "appends_paths add_inheritance_paths (sequence_length tb) (\<lambda>e. True)"
    using Suc.prems(1) by (rule appends_paths_crossover)
  have ne: "prev_pop \<noteq> []" using Suc.prems(2) by simp
  from new_pop_round_effect[OF ok ne, of t pop r] obtain m f es pop1 tb1 r1 where
    rd: "new_pop_round tb t prev_pop (dict_keys prev_pop) pop r = Inr (pop1, tb1, r1)"
    and ca: "child_added tb t prev_pop pop 0 [m, f] m f es tb1 pop1"
    by blast
  have "1 < sequence_length tb1" using child_added_length[OF ca] Suc.prems(1) by simp
  moreover have "0 < n \<longrightarrow> prev_pop \<noteq> []" using ne by simp
  ultimately obtain pop' tb' r' where
    rs: "new_pop_rounds n tb1 t prev_pop (dict_keys prev_pop) pop1 r1 = Inr (pop', tb', r')"
    and co: "cohort_added recorded_round t prev_pop tb1 pop1 tb' pop'"
    using Suc.IH[of tb1 pop1 r1] by blast
  have "cohort_added recorded_round t prev_pop tb pop tb' pop'"
    using ca _ co by (rule cohort_child) (simp add: recorded_round_def)
  moreover have "pop' \<noteq> []"
    using cohort_added_nonempty[OF co] child_added_nonempty[OF ca] by simp
  moreover have "new_pop_rounds (Suc n) tb t prev_pop (dict_keys prev_pop) pop r = Inr (pop', tb', r')"
    by (simp add: rd rs)
  ultimately show ?case by blast
qed

lemma new_population_rounds_effect:
  assumes "prev = (case prev_population of None \<Rightarrow> [] | Some d \<Rightarrow> d)"
  shows "\<exists>pop' tb' r'.
           new_population_rounds n tb t prev_population (dict_keys prev) pop r = Inr (pop', tb', r') \<and>
           cohort_added focal_round t prev tb pop tb' pop' \<and>
           (0 < n \<longrightarrow> pop' \<noteq> []) \<and>
           length (nodes tb') = length (nodes tb) + 2 * n"
proof (induction n arbitrary: tb pop r)
  case 0
  then show ?case by (auto intro: cohort_none)
next
  case (Suc n)
  from new_population_round_effect[OF assms, of tb t pop r] obtain ps m f es pop1 tb1 r1 where
    rd: "new_population_round tb t prev_population (dict_keys prev) pop r = Inr (pop1, tb1, r1)"
    and ca: "child_added tb t prev pop NODE_IS_SAMPLE ps m f es tb1 pop1"
    and fe: "\<forall>e\<in>set es. focal_edge e"
    by blast
  from Suc.IH[of tb1 pop1 r1] obtain pop' tb' r' where
    rs: "new_population_rounds n tb1 t prev_population (dict_keys prev) pop1 r1 = Inr (pop', tb', r')"
    and co: "cohort_added focal_round t prev tb1 pop1 tb' pop'"
    and ln: "length (nodes tb') = length (nodes tb1) + 2 * n"
    by blast
  have "cohort_added focal_round t prev tb pop tb' pop'"
    using ca _ co by (rule cohort_child) (simp add: focal_round_def fe)
  moreover have "pop' \<noteq> []"
    using cohort_added_nonempty[OF co] child_added_nonempty[OF ca] by simp
  moreover have "new_population_rounds (Suc n) tb t prev_population (dict_keys prev) pop r =
      Inr (pop', tb', r')"
    by (simp add: rd rs)
  moreover have "length (nodes tb') = length (nodes tb) + 2 * Suc n"
    using ln ca by (simp add: child_added_def)
  ultimately show ?case by blast
qed

lemma initialise_pop_rounds_effect:
  "\<exists>pop' tb'. initialise_pop_rounds n tb t pop = (pop', tb') \<and>
      cohort_added (\<lambda>fl ps m f es. True) t [] tb pop tb' pop' \<and> (0 < n \<longrightarrow> pop' \<noteq> [])"
proof (induction n arbitrary: tb pop)
  case 0
  then show ?case by (auto intro: cohort_none)
next
  case (Suc n)
  from make_diploid_founder[where tb=tb and t=t and pop=pop] obtain pop1 tb1 where
    md: "(case make_diploid tb t [] of ((individual_id, genomes), tb1) \<Rightarrow>
        (dict_set pop individual_id genomes, tb1)) = (pop1, tb1)"
    and ca: "child_added tb t [] pop 0 [] 0 0 [] tb1 pop1"
    by blast
  from Suc.IH[of tb1 pop1] obtain pop' tb' where
    rs: "initialise_pop_rounds n tb1 t pop1 = (pop', tb')"
    and co: "cohort_added (\<lambda>fl ps m f es. True) t [] tb1 pop1 tb' pop'"
    by blast
  have "cohort_added (\<lambda>fl ps m f es. True) t [] tb pop tb' pop'"
    using ca _ co by (rule cohort_child) simp
  moreover have "pop' \<noteq> []"
    using cohort_added_nonempty[OF co] child_added_nonempty[OF ca] by simp
  moreover have "initialise_pop_rounds (Suc n) tb t pop = (pop', tb')"
    using md rs by (auto split: prod.splits)
  ultimately show ?case by blast
qed

lemma new_pop_invariant:
  assumes sl: "1 < sequence_length tb" and ne: "0 < N \<longrightarrow> pop \<noteq> []"
    and gp: "genomes_paired tb" and tm: "time_monotone tb" and pa: "pop_at tb (t + 1) pop"
  shows "\<exists>pop' tb' r'. new_pop N tb t pop r = Inr (pop', tb', r') \<and>
           1 < sequence_length tb' \<and> (0 < N \<longrightarrow> pop' \<noteq> []) \<and>
           genomes_paired tb' \<and> time_monotone tb' \<and> pop_at tb' t pop'"
proof -
  from new_pop_rounds_effect[OF sl ne, of t "[]" r] obtain pop' tb' r' where
    run: "new_pop_rounds N tb t pop (dict_keys pop) [] r = Inr (pop', tb', r')"
    and co: "cohort_added recorded_round t pop tb [] tb' pop'"
    and ne': "0 < N \<longrightarrow> pop' \<noteq> []"
    by blast
  have "pop_at tb t []" by (simp add: pop_at_def)
  from cohort_added_time[OF co tm pa _ this]
  have "time_monotone tb'" "pop_at tb' t pop'" by simp_all
  moreover have "genomes_paired tb'" using co gp by (rule cohort_added_paired)
  moreover have "1 < sequence_length tb'" using cohort_added_length[OF co] sl by simp
  ultimately show ?thesis using run ne' by (simp add: new_pop_def)
qed

lemma simple_diploid_sim_loop_invariant:
  assumes "1 < sequence_length tb" "0 < N \<longrightarrow> pop \<noteq> []"
    "genomes_paired tb" "time_monotone tb" "pop_at tb g pop"
  shows "\<exists>pop' tb' r'. simple_diploid_sim_loop N tb g pop r = Inr (pop', tb', r') \<and>
           genomes_paired tb' \<and> time_monotone tb'"
  using assms
proof (induction "nat g" arbitrary: tb g pop r)
  case 0
  then have "\<not> 0 < g" by simp
  then have "simple_diploid_sim_loop N tb g pop r = Inr (pop, tb, r)"
    by (simp add: simple_diploid_sim_loop.simps[of N tb g pop r])
  then show ?case using "0.prems" by simp
next
  case (Suc k)
  then have pos: "0 < g" and k: "k = nat (g - 1)" by linarith+
  have "pop_at tb ((g - 1) + 1) pop" using Suc.prems(5) by simp
  from new_pop_invariant[OF Suc.prems(1,2,3,4) this, of r] obtain pop1 tb1 r1 where
    np: "new_pop N tb (g - 1) pop r = Inr (pop1, tb1, r1)"
    and inv: "1 < sequence_length tb1" "0 < N \<longrightarrow> pop1 \<noteq> []"
      "genomes_paired tb1" "time_monotone tb1" "pop_at tb1 (g - 1) pop1"
    by blast
  from Suc.hyps(1)[OF k inv, of r1] obtain pop' tb' r' where
    "simple_diploid_sim_loop N tb1 (g - 1) pop1 r1 = Inr (pop', tb', r')"
    "genomes_paired tb'" "time_monotone tb'"
    by blast
  moreover have "simple_diploid_sim_loop N tb g pop r =
      simple_diploid_sim_loop N tb1 (g - 1) pop1 r1"
    using pos by (simp add: simple_diploid_sim_loop.simps[of N tb g pop r] np)
  ultimately show ?case by simp
qed

lemma new_population_invariant:
  assumes gp: "genomes_paired tb" and tm: "time_monotone tb"
    and pa: "pop_at tb (t + 1) (case prev_population of None \<Rightarrow> [] | Some d \<Rightarrow> d)"
  shows "\<exists>pop' tb' r'. new_population N tb t prev_population r = Inr (pop', tb', r') \<and>
           genomes_paired tb' \<and> time_monotone tb' \<and> pop_at tb' t pop'"
proof -
  define prev where "prev = (case prev_population of None \<Rightarrow> [] | Some d \<Rightarrow> d)"
  have pk: "(case prev_population of None \<Rightarrow> [] | Some d \<Rightarrow> dict_keys d) = dict_keys prev"
    by (simp add: prev_def dict_keys_def split: option.splits)
  from new_population_rounds_effect[OF prev_def, of N tb t "[]" r] obtain pop' tb' r' where
    run: "new_population_rounds N tb t prev_population (dict_keys prev) [] r = Inr (pop', tb', r')"
    and co: "cohort_added focal_round t prev tb [] tb' pop'"
    by blast
  have "pop_at tb t []" by (simp add: pop_at_def)
  from cohort_added_time[OF co tm pa[folded prev_def] _ this]
  have "time_monotone tb'" "pop_at tb' t pop'" by simp_all
  moreover have "genomes_paired tb'" using co gp by (rule cohort_added_paired)
  ultimately show ?thesis using run by (simp add: new_population_def pk)
qed

lemma simple_diploid_sim_population_loop_invariant:
  assumes "genomes_paired tb" "time_monotone tb" "pop_at tb g pop"
  shows "\<exists>pop' tb' r'. simple_diploid_sim_population_loop N tb g pop r = Inr (pop', tb', r') \<and>
           genomes_paired tb' \<and> time_monotone tb'"
  using assms
proof (induction "nat g" arbitrary: tb g pop r)
  case 0
  then have "\<not> 0 < g" by simp
  then have "simple_diploid_sim_population_loop N tb g pop r = Inr (pop, tb, r)"
    by (simp add: simple_diploid_sim_population_loop.simps[of N tb g pop r])
  then show ?case using "0.prems" by simp
next
  case (Suc k)
  then have pos: "0 < g" and k: "k = nat (g - 1)" by linarith+
  have "pop_at tb ((g - 1) + 1) (case Some pop of None \<Rightarrow> [] | Some d \<Rightarrow> d)"
    using Suc.prems(3) by simp
  from new_population_invariant[OF Suc.prems(1,2) this, of N r] obtain pop1 tb1 r1 where
    np: "new_population N tb (g - 1) (Some pop) r = Inr (pop1, tb1, r1)"
    and inv: "genomes_paired tb1" "time_monotone tb1" "pop_at tb1 (g - 1) pop1"
    by blast
  from Suc.hyps(1)[OF k inv, of r1] obtain pop' tb' r' where
    "simple_diploid_sim_population_loop N tb1 (g - 1) pop1 r1 = Inr (pop', tb', r')"
    "genomes_paired tb'" "time_monotone tb'"
    by blast
  moreover have "simple_diploid_sim_population_loop N tb g pop r =
      simple_diploid_sim_population_loop N tb1 (g - 1) pop1 r1"
    using pos by (simp add: simple_diploid_sim_population_loop.simps[of N tb g pop r] np)
  ultimately show ?case by simp
qed

lemma empty_ledger_invariant:
  "genomes_paired ((TableCollection L)\<lparr>time_units := u\<rparr>)"
  "time_monotone ((TableCollection L)\<lparr>time_units := u\<rparr>)"
  "sequence_length ((TableCollection L)\<lparr>time_units := u\<rparr>) = L"
  by (simp_all add: genomes_paired_def time_monotone_def TableCollection_def)

lemma simple_diploid_sim_tables_invariant:
  "\<exists>tb. simple_diploid_sim_tables N r G = Inr tb \<and> genomes_paired tb \<and> time_monotone tb"
proof -
  define tb0 where "tb0 = (TableCollection sequence_length_global)\<lparr>time_units := ''generations''\<rparr>"
  from initialise_pop_rounds_effect[of N tb0 G "[]"] obtain pop tb1 where
    ip: "initialise_pop_rounds N tb0 G [] = (pop, tb1)"
    and co: "cohort_added (\<lambda>fl ps m f es. True) G [] tb0 [] tb1 pop"
    and ne: "0 < N \<longrightarrow> pop \<noteq> []"
    by blast
  have e: "genomes_paired tb0" "time_monotone tb0" "sequence_length tb0 = 50000"
    unfolding tb0_def by (simp_all add: empty_ledger_invariant sequence_length_global_def)
  have "pop_at tb0 (G + 1) []" "pop_at tb0 G []" by (simp_all add: pop_at_def)
  from cohort_added_time[OF co e(2) this(1) _ this(2)]
  have t1: "time_monotone tb1" "pop_at tb1 G pop" by simp_all
  have g1: "genomes_paired tb1" using co e(1) by (rule cohort_added_paired)
  have s1: "1 < sequence_length tb1" using cohort_added_length[OF co] e(3) by simp
  from simple_diploid_sim_loop_invariant[OF s1 ne g1 t1, of r] obtain pop' tb' r' where
    "simple_diploid_sim_loop N tb1 G pop r = Inr (pop', tb', r')"
    "genomes_paired tb'" "time_monotone tb'"
    by blast
  then show ?thesis
    by (simp add: simple_diploid_sim_tables_def initialise_pop_def tb0_def[symmetric] ip)
qed

lemma simple_diploid_sim_population_tables_invariant:
  "\<exists>tb. simple_diploid_sim_population_tables N r G = Inr tb \<and> genomes_paired tb \<and> time_monotone tb"
proof -
  define tb0 where "tb0 = (TableCollection sequence_length_global)\<lparr>time_units := ''generations''\<rparr>"
  have e: "genomes_paired tb0" "time_monotone tb0"
    unfolding tb0_def by (simp_all add: empty_ledger_invariant)
  have "pop_at tb0 (G + 1) (case None of None \<Rightarrow> [] | Some d \<Rightarrow> d)" by (simp add: pop_at_def)
  from new_population_invariant[OF e this, of N r] obtain pop tb1 r1 where
    np: "new_population N tb0 G None r = Inr (pop, tb1, r1)"
    and inv: "genomes_paired tb1" "time_monotone tb1" "pop_at tb1 G pop"
    by blast
  from simple_diploid_sim_population_loop_invariant[OF inv, of N r1] obtain pop' tb' r' where
    "simple_diploid_sim_population_loop N tb1 G pop r1 = Inr (pop', tb', r')"
    "genomes_paired tb'" "time_monotone tb'"
    by blast
  then show ?thesis
    by (simp add: simple_diploid_sim_population_tables_def tb0_def[symmetric] np)
qed

subsection \<open>The ledgers of the two simulators\<close>

text \<open>
  C3. For every cohort size, every tape of random draws and every number of
  generations, each \<^verbatim>\<open>simple_diploid_sim\<close> finishes its generation loop without raising,
  and in the ledger it has then built every edge joins two existing nodes, the parent
  node's birth time strictly greater than the child node's.
\<close>

theorem time_monotonicity:
  "(\<exists>tb. simple_diploid_sim_tables N r G = Inr tb \<and> time_monotone tb) \<and>
   (\<exists>tb. simple_diploid_sim_population_tables N r G = Inr tb \<and> time_monotone tb)"
proof
  from simple_diploid_sim_tables_invariant[of N r G]
  show "\<exists>tb. simple_diploid_sim_tables N r G = Inr tb \<and> time_monotone tb"
    by blast
next
  from simple_diploid_sim_population_tables_invariant[of N r G]
  show "\<exists>tb. simple_diploid_sim_population_tables N r G = Inr tb \<and> time_monotone tb"
    by blast
qed

lemma simple_diploid_sim_tables_example:
  "simple_diploid_sim_tables 1 [] 1 =
     Inr \<lparr>sequence_length = 50000, time_units = ''generations'',
          nodes = [\<lparr>flags = 0, time = 1, individual = 0\<rparr>,
                   \<lparr>flags = 0, time = 1, individual = 0\<rparr>,
                   \<lparr>flags = 0, time = 0, individual = 1\<rparr>,
                   \<lparr>flags = 0, time = 0, individual = 1\<rparr>],
          edges = [\<lparr>left = 0, right = 50000, parent = 0, child = 2\<rparr>,
                   \<lparr>left = 0, right = 50000, parent = 0, child = 3\<rparr>],
          individuals = [\<lparr>parents = []\<rparr>, \<lparr>parents = [0, 0]\<rparr>]\<rparr>"
  by code_simp

lemma simple_diploid_sim_population_tables_example:
  "simple_diploid_sim_population_tables 1 [] 1 =
     Inr \<lparr>sequence_length = 50000, time_units = ''generations'',
          nodes = [\<lparr>flags = 1, time = 1, individual = 0\<rparr>,
                   \<lparr>flags = 1, time = 1, individual = 0\<rparr>,
                   \<lparr>flags = 1, time = 0, individual = 1\<rparr>,
                   \<lparr>flags = 1, time = 0, individual = 1\<rparr>],
          edges = [\<lparr>left = 20000, right = 21000, parent = 0, child = 2\<rparr>,
                   \<lparr>left = 20000, right = 21000, parent = 0, child = 3\<rparr>],
          individuals = [\<lparr>parents = []\<rparr>, \<lparr>parents = [0, 0]\<rparr>]\<rparr>"
  by code_simp

text \<open>One founder, one generation: each ledger has two edges, from a node of time 1 to a
  node of time 0.\<close>

theorem time_monotonicity_witness:
  "(\<exists>tb. simple_diploid_sim_tables 1 [] 1 = Inr tb \<and> time_monotone tb \<and>
         length (edges tb) = 2) \<and>
   (\<exists>tb. simple_diploid_sim_population_tables 1 [] 1 = Inr tb \<and> time_monotone tb \<and>
         length (edges tb) = 2)"
proof -
  from time_monotonicity[of 1 "[]" 1] obtain tb1 tb2 where
    a: "simple_diploid_sim_tables 1 [] 1 = Inr tb1" "time_monotone tb1" and
    b: "simple_diploid_sim_population_tables 1 [] 1 = Inr tb2" "time_monotone tb2"
    by blast
  have "length (edges tb1) = 2"
    using a(1) unfolding simple_diploid_sim_tables_example by auto
  moreover have "length (edges tb2) = 2"
    using b(1) unfolding simple_diploid_sim_population_tables_example by auto
  ultimately show ?thesis using a b by blast
qed

text \<open>
  C10. In the ledger either \<^verbatim>\<open>simple_diploid_sim\<close> has built (no compaction has touched
  it), the node table has exactly two rows per individual, and node \<open>j\<close> refers to
  individual \<open>j div 2\<close>: the individual with id \<open>k\<close> owns the consecutive nodes \<open>2k\<close> and
  \<open>2k + 1\<close>, and no other node refers to it.
\<close>

theorem individuals_own_consecutive_nodes:
  "(\<exists>tb. simple_diploid_sim_tables N r G = Inr tb \<and> genomes_paired tb) \<and>
   (\<exists>tb. simple_diploid_sim_population_tables N r G = Inr tb \<and> genomes_paired tb)"
proof
  from simple_diploid_sim_tables_invariant[of N r G]
  show "\<exists>tb. simple_diploid_sim_tables N r G = Inr tb \<and> genomes_paired tb"
    by blast
next
  from simple_diploid_sim_population_tables_invariant[of N r G]
  show "\<exists>tb. simple_diploid_sim_population_tables N r G = Inr tb \<and> genomes_paired tb"
    by blast
qed

theorem individuals_own_consecutive_nodes_witness:
  "(\<exists>tb. simple_diploid_sim_tables 1 [] 1 = Inr tb \<and> genomes_paired tb \<and>
         length (individuals tb) = 2) \<and>
   (\<exists>tb. simple_diploid_sim_population_tables 1 [] 1 = Inr tb \<and> genomes_paired tb \<and>
         length (individuals tb) = 2)"
proof -
  from individuals_own_consecutive_nodes[of 1 "[]" 1] obtain tb1 tb2 where
    a: "simple_diploid_sim_tables 1 [] 1 = Inr tb1" "genomes_paired tb1" and
    b: "simple_diploid_sim_population_tables 1 [] 1 = Inr tb2" "genomes_paired tb2"
    by blast
  have "length (individuals tb1) = 2"
    using a(1) unfolding simple_diploid_sim_tables_example by auto
  moreover have "length (individuals tb2) = 2"
    using b(1) unfolding simple_diploid_sim_population_tables_example by auto
  ultimately show ?thesis using a b by blast
qed

subsection \<open>Recorded parents and inherited genomes\<close>

lemma node_owner_append:
  "node_owner tb g i \<Longrightarrow> nodes tb' = nodes tb @ ns \<Longrightarrow> node_owner tb' g i"
  by (auto simp: node_owner_def nth_append)

lemma pop_owned_append:
  "pop_owned tb pop \<Longrightarrow> nodes tb' = nodes tb @ ns \<Longrightarrow> pop_owned tb' pop"
  unfolding pop_owned_def by (fastforce intro: node_owner_append)

lemma pop_owned_lookup:
  "pop_owned tb pop \<Longrightarrow> map_of pop i = Some pg \<Longrightarrow>
   node_owner tb (fst pg) i \<and> node_owner tb (snd pg) i"
  unfolding pop_owned_def by (cases pg) (auto dest: map_of_SomeD)

lemma child_added_parents:
  assumes ca: "child_added tb t prev pop fl [m, f] m f es tb' pop'"
    and gp: "genomes_paired tb" and pr: "parents_recorded tb" and pv: "pop_owned tb prev"
    and pp: "pop_owned tb pop"
  shows "parents_recorded tb' \<and> pop_owned tb' prev \<and> pop_owned tb' pop'"
proof -
  define k where "k = int (length (individuals tb))"
  define n where "n = int (length (nodes tb))"
  from ca have
    p': "pop' = dict_set pop k (n, n + 1)" and
    ind: "individuals tb' = individuals tb @ [\<lparr>parents = [m, f]\<rparr>]" and
    nd: "nodes tb' = nodes tb @
          [\<lparr>flags = fl, time = t, individual = k\<rparr>, \<lparr>flags = fl, time = t, individual = k\<rparr>]" and
    ed: "edges tb' = edges tb @ es" and
    es: "\<forall>e\<in>set es. \<exists>pg.
           (child e = n \<and> map_of prev m = Some pg \<or> child e = n + 1 \<and> map_of prev f = Some pg) \<and>
           (parent e = fst pg \<or> parent e = snd pg)"
    unfolding child_added_def k_def n_def by simp_all
  have ev: "even n" using gp by (simp add: genomes_paired_def n_def)
  have new1: "node_owner tb' n k" and new2: "node_owner tb' (n + 1) k"
    by (simp_all add: node_owner_def nd n_def nth_append nat_add_distrib)
  have kk: "0 \<le> k" "nat k < length (individuals tb')" "parents (individuals tb' ! nat k) = [m, f]"
    by (simp_all add: k_def ind)
  have prev': "pop_owned tb' prev" using pv nd by (rule pop_owned_append)
  have old': "pop_owned tb' pop" using pp nd by (rule pop_owned_append)
  have "pop_owned tb' pop'"
    unfolding pop_owned_def
  proof
    fix x assume "x \<in> set pop'"
    then have "x = (k, (n, n + 1)) \<or> x \<in> set pop"
      using set_dict_set[of pop k "(n, n + 1)"] unfolding p' by blast
    then show "case x of (i, g1, g2) \<Rightarrow> node_owner tb' g1 i \<and> node_owner tb' g2 i"
      using new1 new2 old' unfolding pop_owned_def by auto
  qed
  moreover have "parents_recorded tb'"
    unfolding parents_recorded_def
  proof
    fix e assume "e \<in> set (edges tb')"
    then consider "e \<in> set (edges tb)" | "e \<in> set es" unfolding ed by auto
    then show "\<exists>c p m f. node_owner tb' (child e) c \<and> node_owner tb' (parent e) p \<and>
        0 \<le> c \<and> nat c < length (individuals tb') \<and>
        parents (individuals tb' ! nat c) = [m, f] \<and>
        p = (if even (child e) then m else f)"
    proof cases
      case 1
      with pr obtain c p m' f' where o:
        "node_owner tb (child e) c" "node_owner tb (parent e) p"
        "0 \<le> c" "nat c < length (individuals tb)"
        "parents (individuals tb ! nat c) = [m', f']" "p = (if even (child e) then m' else f')"
        unfolding parents_recorded_def by blast
      have "node_owner tb' (child e) c" "node_owner tb' (parent e) p"
        using o(1,2) nd by (blast intro: node_owner_append)+
      moreover have "nat c < length (individuals tb')"
        "parents (individuals tb' ! nat c) = [m', f']"
        using o(4,5) by (simp_all add: ind nth_append)
      ultimately show ?thesis using o(3,6) by blast
    next
      case 2
      with es obtain pg where
        c: "child e = n \<and> map_of prev m = Some pg \<or> child e = n + 1 \<and> map_of prev f = Some pg"
        and q: "parent e = fst pg \<or> parent e = snd pg"
        by blast
      from c show ?thesis
      proof
        assume a: "child e = n \<and> map_of prev m = Some pg"
        with pop_owned_lookup[OF prev', of m pg] q have "node_owner tb' (parent e) m" by auto
        moreover have "node_owner tb' (child e) k" using a new1 by simp
        moreover have "m = (if even (child e) then m else f)" using a ev by simp
        ultimately show ?thesis using kk by blast
      next
        assume a: "child e = n + 1 \<and> map_of prev f = Some pg"
        with pop_owned_lookup[OF prev', of f pg] q have "node_owner tb' (parent e) f" by auto
        moreover have "node_owner tb' (child e) k" using a new2 by simp
        moreover have "f = (if even (child e) then m else f)" using a ev by simp
        ultimately show ?thesis using kk by blast
      qed
    qed
  qed
  ultimately show ?thesis using prev' by blast
qed

lemma founder_added_owned:
  assumes ca: "child_added tb t prev pop fl ps m f es tb' pop'" and pp: "pop_owned tb pop"
  shows "pop_owned tb' pop'"
proof -
  define k where "k = int (length (individuals tb))"
  define n where "n = int (length (nodes tb))"
  from ca have
    p': "pop' = dict_set pop k (n, n + 1)" and
    nd: "nodes tb' = nodes tb @
          [\<lparr>flags = fl, time = t, individual = k\<rparr>, \<lparr>flags = fl, time = t, individual = k\<rparr>]"
    unfolding child_added_def k_def n_def by simp_all
  have new1: "node_owner tb' n k" and new2: "node_owner tb' (n + 1) k"
    by (simp_all add: node_owner_def nd n_def nth_append nat_add_distrib)
  have old': "pop_owned tb' pop" using pp nd by (rule pop_owned_append)
  show "pop_owned tb' pop'"
    unfolding pop_owned_def
  proof
    fix x assume "x \<in> set pop'"
    then have "x = (k, (n, n + 1)) \<or> x \<in> set pop"
      using set_dict_set[of pop k "(n, n + 1)"] unfolding p' by blast
    then show "case x of (i, g1, g2) \<Rightarrow> node_owner tb' g1 i \<and> node_owner tb' g2 i"
      using new1 new2 old' unfolding pop_owned_def by auto
  qed
qed

lemma cohort_added_parents:
  "cohort_added recorded_round t prev tb pop tb' pop' \<Longrightarrow> genomes_paired tb \<Longrightarrow>
   parents_recorded tb \<Longrightarrow> pop_owned tb prev \<Longrightarrow> pop_owned tb pop \<Longrightarrow>
   parents_recorded tb' \<and> pop_owned tb' prev \<and> pop_owned tb' pop'"
proof (induction rule: cohort_added.induct)
  case (cohort_none tb pop)
  then show ?case by simp
next
  case (cohort_child tb pop fl ps m f es tb1 pop1 tb2 pop2)
  from cohort_child.hyps(1,2) have ca: "child_added tb t prev pop fl [m, f] m f es tb1 pop1"
    by (simp add: recorded_round_def)
  from child_added_parents[OF ca cohort_child.prems]
  have "parents_recorded tb1" "pop_owned tb1 prev" "pop_owned tb1 pop1" by simp_all
  moreover have "genomes_paired tb1" using ca cohort_child.prems(1) by (rule child_added_paired)
  ultimately show ?case using cohort_child.IH by blast
qed

lemma cohort_added_owned:
  "cohort_added R t prev tb pop tb' pop' \<Longrightarrow> pop_owned tb pop \<Longrightarrow> pop_owned tb' pop'"
  by (induction rule: cohort_added.induct) (auto dest: founder_added_owned)

lemma cohort_added_founders:
  "cohort_added R t [] tb pop tb' pop' \<Longrightarrow> edges tb' = edges tb"
proof (induction rule: cohort_added.induct)
  case (cohort_none tb pop)
  then show ?case by simp
next
  case (cohort_child tb pop fl ps m f es tb1 pop1 tb2 pop2)
  from cohort_child.hyps(1) have
    "edges tb1 = edges tb @ es"
    "\<forall>e\<in>set es. \<exists>pg.
       (child e = int (length (nodes tb)) \<and> map_of [] m = Some pg \<or>
        child e = int (length (nodes tb)) + 1 \<and> map_of [] f = Some pg) \<and>
       (parent e = fst pg \<or> parent e = snd pg)"
    unfolding child_added_def by simp_all
  then have "edges tb1 = edges tb" by (cases es) auto
  then show ?case using cohort_child.IH by simp
qed

lemma new_pop_parents:
  assumes sl: "1 < sequence_length tb" and ne: "0 < N \<longrightarrow> pop \<noteq> []"
    and gp: "genomes_paired tb" and pr: "parents_recorded tb" and po: "pop_owned tb pop"
  shows "\<exists>pop' tb' r'. new_pop N tb t pop r = Inr (pop', tb', r') \<and>
           parents_recorded tb' \<and> pop_owned tb' pop'"
proof -
  from new_pop_rounds_effect[OF sl ne, of t "[]" r] obtain pop' tb' r' where
    run: "new_pop_rounds N tb t pop (dict_keys pop) [] r = Inr (pop', tb', r')"
    and co: "cohort_added recorded_round t pop tb [] tb' pop'"
    by blast
  have "pop_owned tb []" by (simp add: pop_owned_def)
  from cohort_added_parents[OF co gp pr po this]
  have "parents_recorded tb'" "pop_owned tb' pop'" by simp_all
  then show ?thesis using run by (simp add: new_pop_def)
qed

lemma simple_diploid_sim_loop_parents:
  assumes "1 < sequence_length tb" "0 < N \<longrightarrow> pop \<noteq> []"
    "genomes_paired tb" "time_monotone tb" "pop_at tb g pop"
    "parents_recorded tb" "pop_owned tb pop"
  shows "\<exists>pop' tb' r'. simple_diploid_sim_loop N tb g pop r = Inr (pop', tb', r') \<and>
           parents_recorded tb'"
  using assms
proof (induction "nat g" arbitrary: tb g pop r)
  case 0
  then have "\<not> 0 < g" by simp
  then have "simple_diploid_sim_loop N tb g pop r = Inr (pop, tb, r)"
    by (simp add: simple_diploid_sim_loop.simps[of N tb g pop r])
  then show ?case using "0.prems" by simp
next
  case (Suc k)
  then have pos: "0 < g" and k: "k = nat (g - 1)" by linarith+
  have "pop_at tb ((g - 1) + 1) pop" using Suc.prems(5) by simp
  from new_pop_invariant[OF Suc.prems(1,2,3,4) this, of r] obtain pop1 tb1 r1 where
    np: "new_pop N tb (g - 1) pop r = Inr (pop1, tb1, r1)"
    and inv: "1 < sequence_length tb1" "0 < N \<longrightarrow> pop1 \<noteq> []"
      "genomes_paired tb1" "time_monotone tb1" "pop_at tb1 (g - 1) pop1"
    by blast
  from new_pop_parents[OF Suc.prems(1,2,3,6,7), of "g - 1" r] np
  have inv': "parents_recorded tb1" "pop_owned tb1 pop1" by auto
  from Suc.hyps(1)[OF k inv inv', of r1] obtain pop' tb' r' where
    "simple_diploid_sim_loop N tb1 (g - 1) pop1 r1 = Inr (pop', tb', r')"
    "parents_recorded tb'"
    by blast
  moreover have "simple_diploid_sim_loop N tb g pop r =
      simple_diploid_sim_loop N tb1 (g - 1) pop1 r1"
    using pos by (simp add: simple_diploid_sim_loop.simps[of N tb g pop r] np)
  ultimately show ?case by simp
qed

lemma simple_diploid_sim_tables_parents:
  "\<exists>tb. simple_diploid_sim_tables N r G = Inr tb \<and> parents_recorded tb"
proof -
  define tb0 where "tb0 = (TableCollection sequence_length_global)\<lparr>time_units := ''generations''\<rparr>"
  from initialise_pop_rounds_effect[of N tb0 G "[]"] obtain pop tb1 where
    ip: "initialise_pop_rounds N tb0 G [] = (pop, tb1)"
    and co: "cohort_added (\<lambda>fl ps m f es. True) G [] tb0 [] tb1 pop"
    and ne: "0 < N \<longrightarrow> pop \<noteq> []"
    by blast
  have e: "genomes_paired tb0" "time_monotone tb0" "sequence_length tb0 = 50000"
    unfolding tb0_def by (simp_all add: empty_ledger_invariant sequence_length_global_def)
  have e0: "edges tb0 = []" by (simp add: tb0_def TableCollection_def)
  have "pop_at tb0 (G + 1) []" "pop_at tb0 G []" by (simp_all add: pop_at_def)
  from cohort_added_time[OF co e(2) this(1) _ this(2)]
  have t1: "time_monotone tb1" "pop_at tb1 G pop" by simp_all
  have g1: "genomes_paired tb1" using co e(1) by (rule cohort_added_paired)
  have s1: "1 < sequence_length tb1" using cohort_added_length[OF co] e(3) by simp
  have "pop_owned tb0 []" by (simp add: pop_owned_def)
  with co have o1: "pop_owned tb1 pop" by (rule cohort_added_owned)
  have "edges tb1 = []" using cohort_added_founders[OF co] e0 by simp
  then have p1: "parents_recorded tb1" by (simp add: parents_recorded_def)
  from simple_diploid_sim_loop_parents[OF s1 ne g1 t1 p1 o1, of r] obtain pop' tb' r' where
    "simple_diploid_sim_loop N tb1 G pop r = Inr (pop', tb', r')" "parents_recorded tb'"
    by blast
  then show ?thesis
    by (simp add: simple_diploid_sim_tables_def initialise_pop_def tb0_def[symmetric] ip)
qed

text \<open>
  C6 holds for \<^verbatim>\<open>new_pop\<close>, which passes the one pair \<^verbatim>\<open>mother_and_father\<close> both to
  \<^verbatim>\<open>make_diploid\<close> and to the inheritance loop (lemma \<open>simple_diploid_sim_tables_parents\<close>
  above). It fails for \<^verbatim>\<open>new_population\<close>, which records \<^verbatim>\<open>parent_individual_ids\<close> and then
  draws \<^verbatim>\<open>mother_and_father\<close> afresh. With two founders, one generation and the draws
  0, 0, 1, 1, individual 2 (nodes 4 and 5) is recorded with parents 0 and 0, while both
  its edges leave node 2, a genome of individual 1.
\<close>

theorem new_population_parents_mismatch:
  "simple_diploid_sim_population_tables 2 [0, 0, 1, 1] 1 =
     Inr \<lparr>sequence_length = 50000, time_units = ''generations'',
          nodes = [\<lparr>flags = 1, time = 1, individual = 0\<rparr>,
                   \<lparr>flags = 1, time = 1, individual = 0\<rparr>,
                   \<lparr>flags = 1, time = 1, individual = 1\<rparr>,
                   \<lparr>flags = 1, time = 1, individual = 1\<rparr>,
                   \<lparr>flags = 1, time = 0, individual = 2\<rparr>,
                   \<lparr>flags = 1, time = 0, individual = 2\<rparr>,
                   \<lparr>flags = 1, time = 0, individual = 3\<rparr>,
                   \<lparr>flags = 1, time = 0, individual = 3\<rparr>],
          edges = [\<lparr>left = 20000, right = 21000, parent = 2, child = 4\<rparr>,
                   \<lparr>left = 20000, right = 21000, parent = 2, child = 5\<rparr>,
                   \<lparr>left = 20000, right = 21000, parent = 0, child = 6\<rparr>,
                   \<lparr>left = 20000, right = 21000, parent = 0, child = 7\<rparr>],
          individuals = [\<lparr>parents = []\<rparr>, \<lparr>parents = []\<rparr>,
                         \<lparr>parents = [0, 0]\<rparr>, \<lparr>parents = [0, 0]\<rparr>]\<rparr>"
  by code_simp

lemma new_population_parents_not_recorded:
  "\<not> parents_recorded
     \<lparr>sequence_length = 50000, time_units = ''generations'',
          nodes = [\<lparr>flags = 1, time = 1, individual = 0\<rparr>,
                   \<lparr>flags = 1, time = 1, individual = 0\<rparr>,
                   \<lparr>flags = 1, time = 1, individual = 1\<rparr>,
                   \<lparr>flags = 1, time = 1, individual = 1\<rparr>,
                   \<lparr>flags = 1, time = 0, individual = 2\<rparr>,
                   \<lparr>flags = 1, time = 0, individual = 2\<rparr>,
                   \<lparr>flags = 1, time = 0, individual = 3\<rparr>,
                   \<lparr>flags = 1, time = 0, individual = 3\<rparr>],
          edges = [\<lparr>left = 20000, right = 21000, parent = 2, child = 4\<rparr>,
                   \<lparr>left = 20000, right = 21000, parent = 2, child = 5\<rparr>,
                   \<lparr>left = 20000, right = 21000, parent = 0, child = 6\<rparr>,
                   \<lparr>left = 20000, right = 21000, parent = 0, child = 7\<rparr>],
          individuals = [\<lparr>parents = []\<rparr>, \<lparr>parents = []\<rparr>,
                         \<lparr>parents = [0, 0]\<rparr>, \<lparr>parents = [0, 0]\<rparr>]\<rparr>"
  by (simp add: parents_recorded_def node_owner_def)

subsection \<open>The driver\<close>

lemma diploid_sim_integer_cadence:
  "c \<noteq> 0 \<Longrightarrow> diploid_sim lib N r n G (PyInt c) = Inl TypeError_positional_arguments"
  by (simp add: diploid_sim_def py_mod_def initialise_pop_3_def)

text \<open>
  C5 fails on the notebook's own call \<^verbatim>\<open>diploid_sim(6, 100, simplification_interval=25)\<close>:
  whatever tskit does and whatever the generator draws, the driver raises TypeError at
  \<^verbatim>\<open>initialise_pop(tables, generations, diploid_pop_size)\<close>; no generation is built, no
  final compaction runs and no tree sequence is returned.
\<close>

theorem diploid_sim_raises_type_error:
  "diploid_sim lib N r 6 100 (PyInt 25) = Inl TypeError_positional_arguments"
  by (simp add: diploid_sim_def py_mod_def initialise_pop_3_def)

text \<open>The driver that lists its calls ends as the driver does, raising or returning the
  same.\<close>

lemma diploid_sim_loop_calls_result:
  "snd (diploid_sim_loop_calls lib N si sm tb g pop r calls) = diploid_sim_loop lib N si sm tb g pop r"
proof (induction lib N si sm tb g pop r calls rule: diploid_sim_loop_calls.induct)
  case (1 lib N si sm tb g pop r calls)
  show ?case
  proof (cases "g > 0")
    case False
    then show ?thesis
      by (simp add: diploid_sim_loop_calls.simps[of lib N si sm tb g pop r calls]
          diploid_sim_loop.simps[of lib N si sm tb g pop r])
  next
    case True
    show ?thesis
    proof (cases "new_pop N tb (g - 1) pop r")
      case (Inl e)
      then show ?thesis using True
        by (simp add: diploid_sim_loop_calls.simps[of lib N si sm tb g pop r calls]
            diploid_sim_loop.simps[of lib N si sm tb g pop r])
    next
      case (Inr x)
      obtain pop1 tb1 r1 where x: "x = (pop1, tb1, r1)" by (cases x)
      define test where "test = (if g - 1 > 0
                       then (case py_mod (g - 1) si of
                               Inl e \<Rightarrow> Inl e
                             | Inr m \<Rightarrow> Inr (m = sm))
                       else Inr False)"
      show ?thesis
      proof (cases test)
        case (Inl e)
        then show ?thesis using True Inr x unfolding test_def
          by (simp add: diploid_sim_loop_calls.simps[of lib N si sm tb g pop r calls]
              diploid_sim_loop.simps[of lib N si sm tb g pop r])
      next
        case b: (Inr b)
        have t: "(if g - 1 > 0
                  then (case py_mod (g - 1) si of
                          Inl e \<Rightarrow> Inl e
                        | Inr m \<Rightarrow> Inr (m = sm))
                  else Inr False) = Inr b"
          using b unfolding test_def .
        show ?thesis
        proof (cases b)
          case False
          then have bf: "b = False" by simp
          from "1.IH"(2)[OF True Inr x[symmetric] refl t bf]
          have "snd (diploid_sim_loop_calls lib N si sm tb1 (g - 1) pop1 r1
                       (calls @ [Call_new_pop (g - 1)])) =
                diploid_sim_loop lib N si sm tb1 (g - 1) pop1 r1"
            .
          then show ?thesis using True Inr x b False unfolding test_def
            by (simp add: diploid_sim_loop_calls.simps[of lib N si sm tb g pop r calls]
                diploid_sim_loop.simps[of lib N si sm tb g pop r])
        next
          case True2: True
          then have bt: "b = True" by simp
          show ?thesis
          proof (cases "simplify_tables lib tb1 (current_nodes pop1) pop1")
            case (Inl e)
            then show ?thesis using True Inr x b True2 unfolding test_def
              by (simp add: diploid_sim_loop_calls.simps[of lib N si sm tb g pop r calls]
                  diploid_sim_loop.simps[of lib N si sm tb g pop r])
          next
            case st: (Inr y)
            obtain pop2 tb2 where y: "y = (pop2, tb2)" by (cases y)
            from "1.IH"(1)[OF True Inr x[symmetric] refl t bt st y[symmetric]]
            have "snd (diploid_sim_loop_calls lib N si sm tb2 (g - 1) pop2 r1
                         (calls @ [Call_new_pop (g - 1), Call_simplify_tables])) =
                  diploid_sim_loop lib N si sm tb2 (g - 1) pop2 r1"
              .
            then show ?thesis using True Inr x b True2 st y unfolding test_def
              by (simp add: diploid_sim_loop_calls.simps[of lib N si sm tb g pop r calls]
                  diploid_sim_loop.simps[of lib N si sm tb g pop r])
          qed
        qed
      qed
    qed
  qed
qed

lemma diploid_sim_calls_result:
  "snd (diploid_sim_calls lib N r n G c) = diploid_sim lib N r n G c"
proof (cases "py_mod G c")
  case (Inl e)
  then show ?thesis by (simp add: diploid_sim_calls_def diploid_sim_def)
next
  case m: (Inr m)
  define tb0 where
    "tb0 = (TableCollection sequence_length_global)\<lparr>time_units := ''generations''\<rparr>"
  show ?thesis
  proof (cases "initialise_pop_3 N tb0 G n")
    case (Inl e)
    then show ?thesis using m by (simp add: diploid_sim_calls_def diploid_sim_def tb0_def)
  next
    case (Inr x)
    obtain pop tb1 where x: "x = (pop, tb1)" by (cases x)
    obtain calls res where
      l: "diploid_sim_loop_calls lib N c m tb1 G pop r [Call_initialise_pop] = (calls, res)"
      by (cases "diploid_sim_loop_calls lib N c m tb1 G pop r [Call_initialise_pop]")
    have res: "diploid_sim_loop lib N c m tb1 G pop r = res"
      using diploid_sim_loop_calls_result[of lib N c m tb1 G pop r "[Call_initialise_pop]"] l
      by simp
    show ?thesis using m Inr x l res
      by (simp add: diploid_sim_calls_def diploid_sim_def tb0_def split: sum.splits prod.splits)
  qed
qed

lemma cadence_computation_raises:
  "diploid_sim lib N r n G (PyInt 0) = Inl ZeroDivisionError"
  "diploid_sim lib N r n G PyNone = Inl TypeError_unsupported_operand"
  "diploid_sim lib N r n G (PyStr s) = Inl TypeError_unsupported_operand"
  by (simp_all add: diploid_sim_def py_mod_def)



subsection \<open>The ledger after one generation\<close>

text \<open>
  The ledger \<^verbatim>\<open>simple_diploid_sim(generations=1)\<close> of the first simulator builds, before
  \<^verbatim>\<open>tables.sort()\<close>: the \<open>2N\<close> founder genomes are nodes \<open>0..2N-1\<close> at time 1, the \<open>2N\<close>
  genomes of the one generation are nodes \<open>2N..4N-1\<close> at time 0, and every edge goes from
  a founder node into a node of time 0.
\<close>

lemma cohort_added_layout:
  "cohort_added focal_round t prev tb pop tb' pop' \<Longrightarrow>
   \<exists>ns es. nodes tb' = nodes tb @ ns \<and>
     (\<forall>x\<in>set ns. flags x = NODE_IS_SAMPLE \<and> time x = t) \<and>
     edges tb' = edges tb @ es \<and>
     (\<forall>e\<in>set es. focal_edge e \<and> int (length (nodes tb)) \<le> child e \<and>
        child e < int (length (nodes tb')) \<and>
        (\<exists>i pg. map_of prev i = Some pg \<and> (parent e = fst pg \<or> parent e = snd pg)))"
proof (induction rule: cohort_added.induct)
  case (cohort_none tb pop)
  show ?case by (intro exI[of _ "[]"]) simp
next
  case (cohort_child tb pop fl ps m f es tb1 pop1 tb2 pop2)
  define n where "n = int (length (nodes tb))"
  define x where "x = \<lparr>flags = fl, time = t, individual = int (length (individuals tb))\<rparr>"
  from cohort_child.hyps(1) have
    nd: "nodes tb1 = nodes tb @ [x, x]" and
    ed: "edges tb1 = edges tb @ es" and
    es: "\<forall>e\<in>set es. \<exists>pg.
           (child e = n \<and> map_of prev m = Some pg \<or> child e = n + 1 \<and> map_of prev f = Some pg) \<and>
           (parent e = fst pg \<or> parent e = snd pg)"
    unfolding child_added_def n_def x_def by simp_all
  from cohort_child.hyps(2) have fl: "fl = NODE_IS_SAMPLE" and fe: "\<forall>e\<in>set es. focal_edge e"
    by (simp_all add: focal_round_def)
  from cohort_child.IH obtain ns' es' where
    nd': "nodes tb2 = nodes tb1 @ ns'" and
    fl': "\<forall>x\<in>set ns'. flags x = NODE_IS_SAMPLE \<and> time x = t" and
    ed': "edges tb2 = edges tb1 @ es'" and
    es': "\<forall>e\<in>set es'. focal_edge e \<and> int (length (nodes tb1)) \<le> child e \<and>
        child e < int (length (nodes tb2)) \<and>
        (\<exists>i pg. map_of prev i = Some pg \<and> (parent e = fst pg \<or> parent e = snd pg))"
    by blast
  have a: "nodes tb2 = nodes tb @ ([x, x] @ ns')" by (simp add: nd nd')
  have b: "\<forall>y\<in>set ([x, x] @ ns'). flags y = NODE_IS_SAMPLE \<and> time y = t"
    using fl' fl by (auto simp: x_def)
  have c: "edges tb2 = edges tb @ (es @ es')" by (simp add: ed ed')
  have d: "\<forall>e\<in>set (es @ es'). focal_edge e \<and> int (length (nodes tb)) \<le> child e \<and>
        child e < int (length (nodes tb2)) \<and>
        (\<exists>i pg. map_of prev i = Some pg \<and> (parent e = fst pg \<or> parent e = snd pg))"
  proof
    fix e assume "e \<in> set (es @ es')"
    then consider "e \<in> set es" | "e \<in> set es'" by auto
    then show "focal_edge e \<and> int (length (nodes tb)) \<le> child e \<and>
        child e < int (length (nodes tb2)) \<and>
        (\<exists>i pg. map_of prev i = Some pg \<and> (parent e = fst pg \<or> parent e = snd pg))"
    proof cases
      case 1
      with es obtain pg where
        "child e = n \<and> map_of prev m = Some pg \<or> child e = n + 1 \<and> map_of prev f = Some pg"
        "parent e = fst pg \<or> parent e = snd pg" by blast
      moreover have "focal_edge e" using 1 fe by simp
      moreover have "n + 1 < int (length (nodes tb2))" by (simp add: a n_def)
      ultimately show ?thesis unfolding n_def by fastforce
    next
      case 2
      with es' have "focal_edge e" "int (length (nodes tb1)) \<le> child e"
        "child e < int (length (nodes tb2))"
        "\<exists>i pg. map_of prev i = Some pg \<and> (parent e = fst pg \<or> parent e = snd pg)"
        by auto
      moreover have "int (length (nodes tb)) \<le> int (length (nodes tb1))" by (simp add: nd)
      ultimately show ?thesis by auto
    qed
  qed
  from a b c d show ?case by blast
qed

lemma one_generation_ledger:
  "\<exists>tb. simple_diploid_sim_population_tables N r 1 = Inr tb \<and> one_generation N tb"
proof -
  define tb0 where "tb0 = (TableCollection sequence_length_global)\<lparr>time_units := ''generations''\<rparr>"
  have e: "time_monotone tb0" "sequence_length tb0 = 50000" "nodes tb0 = []" "edges tb0 = []"
    unfolding tb0_def
    by (simp_all add: empty_ledger_invariant sequence_length_global_def)
      (simp_all add: TableCollection_def)
  \<comment> \<open>the founders\<close>
  have pn: "[] = (case None :: population option of None \<Rightarrow> [] | Some d \<Rightarrow> d)" by simp
  from new_population_rounds_effect[OF pn, of N tb0 1 "[]" r] obtain pop tb1 r1 where
    run1: "new_population_rounds N tb0 1 None (dict_keys ([] :: population)) [] r =
             Inr (pop, tb1, r1)"
    and co1: "cohort_added focal_round 1 [] tb0 [] tb1 pop"
    and ln1: "length (nodes tb1) = length (nodes tb0) + 2 * N"
    by blast
  have np1: "new_population N tb0 1 None r = Inr (pop, tb1, r1)"
    using run1 by (simp add: new_population_def dict_keys_def)
  from cohort_added_layout[OF co1] obtain fs es1 where
    fs: "nodes tb1 = nodes tb0 @ fs" "\<forall>x\<in>set fs. flags x = NODE_IS_SAMPLE \<and> time x = 1"
    and ed1: "edges tb1 = edges tb0 @ es1"
    and es1: "\<forall>e\<in>set es1. \<exists>i pg. map_of ([] :: population) i = Some pg \<and>
                (parent e = fst pg \<or> parent e = snd pg)"
    by blast
  have "es1 = []" using es1 by (cases es1) auto
  then have ed1': "edges tb1 = []" using ed1 e(4) by simp
  have fs': "nodes tb1 = fs" "length fs = 2 * N" using fs(1) ln1 e(3) by simp_all
  have "pop_at tb0 (1 + 1) []" "pop_at tb0 1 []" by (simp_all add: pop_at_def)
  from cohort_added_time[OF co1 e(1) this(1) _ this(2)]
  have t1: "time_monotone tb1" "pop_at tb1 1 pop" by simp_all
  have s1: "sequence_length tb1 = 50000" using cohort_added_length[OF co1] e(2) by simp
  \<comment> \<open>the one generation\<close>
  have pp: "pop = (case Some pop of None \<Rightarrow> [] | Some d \<Rightarrow> d)" by simp
  from new_population_rounds_effect[OF pp, of N tb1 0 "[]" r1] obtain pop2 tb2 r2 where
    run2: "new_population_rounds N tb1 0 (Some pop) (dict_keys pop) [] r1 = Inr (pop2, tb2, r2)"
    and co2: "cohort_added focal_round 0 pop tb1 [] tb2 pop2"
    and ln2: "length (nodes tb2) = length (nodes tb1) + 2 * N"
    by blast
  have np2: "new_population N tb1 0 (Some pop) r1 = Inr (pop2, tb2, r2)"
    using run2 by (simp add: new_population_def)
  from cohort_added_layout[OF co2] obtain cs es where
    cs: "nodes tb2 = nodes tb1 @ cs" "\<forall>x\<in>set cs. flags x = NODE_IS_SAMPLE \<and> time x = 0"
    and ed2: "edges tb2 = edges tb1 @ es"
    and es: "\<forall>e\<in>set es. focal_edge e \<and> int (length (nodes tb1)) \<le> child e \<and>
        child e < int (length (nodes tb2)) \<and>
        (\<exists>i pg. map_of pop i = Some pg \<and> (parent e = fst pg \<or> parent e = snd pg))"
    by blast
  have cs': "nodes tb2 = fs @ cs" "length cs = 2 * N" using cs(1) ln2 fs' by simp_all
  have s2: "sequence_length tb2 = 50000" using cohort_added_length[OF co2] s1 by simp
  have edges2: "\<forall>e\<in>set (edges tb2). focal_edge e \<and> 0 \<le> parent e \<and> parent e < 2 * int N \<and>
        2 * int N \<le> child e \<and> child e < 4 * int N"
  proof
    fix e assume "e \<in> set (edges tb2)"
    then have "e \<in> set es" using ed2 ed1' by simp
    with es obtain i pg where
      a: "focal_edge e" "int (length (nodes tb1)) \<le> child e" "child e < int (length (nodes tb2))"
      and l: "map_of pop i = Some pg" and q: "parent e = fst pg \<or> parent e = snd pg"
      by blast
    from pop_at_lookup[OF t1(2) l] q have "node_at tb1 1 (parent e)" by auto
    then have "0 \<le> parent e" "parent e < int (length (nodes tb1))"
      by (auto simp: node_at_def)
    then show "focal_edge e \<and> 0 \<le> parent e \<and> parent e < 2 * int N \<and>
        2 * int N \<le> child e \<and> child e < 4 * int N"
      using a fs' cs' by simp
  qed
  have og: "one_generation N tb2"
    unfolding one_generation_def using s2 cs' fs' fs(2) cs(2) edges2 by blast
  have "simple_diploid_sim_population_loop N tb2 0 pop2 r2 = Inr (pop2, tb2, r2)"
    by (simp add: simple_diploid_sim_population_loop.simps[of N tb2 0 pop2 r2])
  then have "simple_diploid_sim_population_loop N tb1 1 pop r1 = Inr (pop2, tb2, r2)"
    by (simp add: simple_diploid_sim_population_loop.simps[of N tb1 1 pop r1] np2)
  then have "simple_diploid_sim_population_tables N r 1 = Inr tb2"
    by (simp add: simple_diploid_sim_population_tables_def tb0_def[symmetric] np1)
  with og show ?thesis by blast
qed

end
